theory Spec2Isabelle
  imports
    Complex_Main
    "HOL-Library.Char_ord"
    "HOL-Library.List_Lexorder"
    "HOL-Library.Product_Lexorder"
    "HOL-Library.Multiset"
    "HOL-Library.AList"
    "HOL-Library.Log_Nat"
    "HOL-Library.Sublist"
begin

section \<open>Data model of \<^verbatim>\<open>allocator.py\<close>\<close>

text \<open>
  The dataclass \<^verbatim>\<open>NFT\<close> has the fields \<^verbatim>\<open>asset\<close> and \<^verbatim>\<open>rarity\<close>. The input of
  \<^verbatim>\<open>generate_nft_pool\<close> is a list of tuples \<^verbatim>\<open>(asset, rarity)\<close> whose second component
  may be \<^verbatim>\<open>None\<close>, and the pre-assigned branch passes that component to the constructor
  as it is; the field is therefore an optional string. The dictionaries
  \<^verbatim>\<open>{"asset": ..., "rarity": ...}\<close> stored in a \<^verbatim>\<open>WalletAllocation\<close> carry the same two
  fields and are represented by the same record.
\<close>

record NFT =
  asset :: string
  rarity :: "string option"

record WalletAllocation =
  wallet :: string
  nfts :: "NFT list"
  total_nfts :: int

text \<open>
  A Python \<^verbatim>\<open>dict\<close> is an association list in iteration order; its keys are distinct.
  \<^verbatim>\<open>d.items()\<close> is the list itself, \<^verbatim>\<open>d.values()\<close> the list of second components,
  \<^verbatim>\<open>d.get(k, v)\<close> a lookup with a default, and \<^verbatim>\<open>d[k] = v\<close> is \<^const>\<open>AList.update\<close>
  (replace in place, or append a new key at the end). Strings are ordered
  lexicographically by character code, tuples lexicographically by component, so
  \<^verbatim>\<open>sorted(d.items())\<close> is \<^const>\<open>sort\<close> on the list of pairs.
\<close>

type_synonym ('k, 'v) dict = "('k \<times> 'v) list"

definition dict_ok :: "('k, 'v) dict \<Rightarrow> bool" where
  "dict_ok d = distinct (map fst d)"

definition dict_get :: "('k, 'v) dict \<Rightarrow> 'k \<Rightarrow> 'v \<Rightarrow> 'v" where
  "dict_get d k dflt = (case map_of d k of None \<Rightarrow> dflt | Some v \<Rightarrow> v)"

definition dict_values :: "('k, 'v) dict \<Rightarrow> 'v list" where
  "dict_values d = map snd d"

section \<open>\<^verbatim>\<open>NFTAllocator.allocate_nfts\<close>\<close>

text \<open>
  The inner loop \<^verbatim>\<open>for _ in range(nft_count)\<close>: it stops at the first iteration that finds
  the cursor \<^verbatim>\<open>nft_index\<close> at the end of the pool (the \<^verbatim>\<open>break\<close> after the warning), and
  otherwise appends \<^verbatim>\<open>nft_pool[nft_index]\<close> and advances the cursor. The first argument
  counts the iterations that are left. The warning is printed only; nothing is raised.
\<close>

fun draw_nfts :: "nat \<Rightarrow> NFT list \<Rightarrow> nat \<Rightarrow> NFT list \<Rightarrow> NFT list \<times> nat" where
  "draw_nfts 0 nft_pool nft_index wallet_nfts = (wallet_nfts, nft_index)"
| "draw_nfts (Suc k) nft_pool nft_index wallet_nfts =
     (if nft_index \<ge> length nft_pool then (wallet_nfts, nft_index)
      else draw_nfts k nft_pool (Suc nft_index) (wallet_nfts @ [nft_pool ! nft_index]))"

text \<open>
  The outer loop over \<^verbatim>\<open>sorted_wallets\<close>. \<^verbatim>\<open>range(nft_count)\<close> is empty for a count that
  is not positive, hence \<^term>\<open>nat nft_count\<close> iterations.
\<close>

fun allocate_loop :: "NFT list \<Rightarrow> nat \<Rightarrow> (string \<times> int) list \<Rightarrow> WalletAllocation list" where
  "allocate_loop nft_pool nft_index [] = []"
| "allocate_loop nft_pool nft_index ((w, nft_count) # rest) =
     (case draw_nfts (nat nft_count) nft_pool nft_index [] of
        (wallet_nfts, nft_index') \<Rightarrow>
          \<lparr>wallet = w, nfts = wallet_nfts, total_nfts = int (length wallet_nfts)\<rparr>
            # allocate_loop nft_pool nft_index' rest)"

definition allocate_nfts :: "NFT list \<Rightarrow> (string, int) dict \<Rightarrow> WalletAllocation list" where
  "allocate_nfts nft_pool eligible_wallets = allocate_loop nft_pool 0 (sort eligible_wallets)"

section \<open>Auxiliary notions for the allocation loops\<close>

text \<open>The list of slices that the cursor cuts out of the pool, written without the cursor's cap.\<close>

fun slices :: "NFT list \<Rightarrow> nat \<Rightarrow> (string \<times> int) list \<Rightarrow> WalletAllocation list" where
  "slices pool i [] = []"
| "slices pool i ((w, c) # rest) =
     \<lparr>wallet = w, nfts = take (nat c) (drop i pool),
      total_nfts = int (length (take (nat c) (drop i pool)))\<rparr>
       # slices pool (i + nat c) rest"

definition draws :: "(string \<times> int) list \<Rightarrow> nat" where
  "draws es = sum_list (map (\<lambda>e. nat (snd e)) es)"

text \<open>
  The position of the cursor \<^verbatim>\<open>nft_index\<close> when the loop reaches the \<open>k\<close>-th recipient:
  the number of items handed to the recipients before it.
\<close>

definition cursor_before :: "WalletAllocation list \<Rightarrow> nat \<Rightarrow> nat" where
  "cursor_before allocs k = length (concat (map nfts (take k allocs)))"

section \<open>\<^verbatim>\<open>NFTAllocator.validate_allocation\<close>\<close>

text \<open>
  \<^verbatim>\<open>validate_allocation\<close> returns \<^verbatim>\<open>False\<close> at the first check that fails, after printing
  what failed. The model keeps the message as a value: the report is the failure, or
  nothing when every check passed, and the Boolean result says whether there was none.
\<close>

datatype validation_failure =
    WrongCount string int int
  | DuplicateAsset string
  | TotalMismatch int int
  | OverAllocated int int

text \<open>The loop \<^verbatim>\<open>for nft in allocation.nfts\<close> over the set \<^verbatim>\<open>unique_ids\<close>.\<close>

fun check_duplicates :: "NFT list \<Rightarrow> string set \<Rightarrow> validation_failure + string set" where
  "check_duplicates [] unique_ids = Inr unique_ids"
| "check_duplicates (nft # rest) unique_ids =
     (if asset nft \<in> unique_ids then Inl (DuplicateAsset (asset nft))
      else check_duplicates rest (insert (asset nft) unique_ids))"

text \<open>The loop \<^verbatim>\<open>for allocation in allocations\<close> with its two accumulators.\<close>

fun validate_loop ::
  "WalletAllocation list \<Rightarrow> (string, int) dict \<Rightarrow> int \<Rightarrow> string set
     \<Rightarrow> validation_failure + (int \<times> string set)" where
  "validate_loop [] eligible_wallets total_allocated unique_ids = Inr (total_allocated, unique_ids)"
| "validate_loop (allocation # rest) eligible_wallets total_allocated unique_ids =
     (let expected = dict_get eligible_wallets (wallet allocation) 0 in
      if total_nfts allocation \<noteq> expected
      then Inl (WrongCount (wallet allocation) expected (total_nfts allocation))
      else
        (case check_duplicates (nfts allocation) unique_ids of
           Inl failure \<Rightarrow> Inl failure
         | Inr unique_ids' \<Rightarrow>
             validate_loop rest eligible_wallets (total_allocated + total_nfts allocation) unique_ids'))"

definition validate_allocation_report ::
  "WalletAllocation list \<Rightarrow> (string, int) dict \<Rightarrow> int \<Rightarrow> validation_failure + unit" where
  "validate_allocation_report allocations eligible_wallets total_pool =
     (case validate_loop allocations eligible_wallets 0 {} of
        Inl failure \<Rightarrow> Inl failure
      | Inr (total_allocated, unique_ids) \<Rightarrow>
          (let expected_total = sum_list (dict_values eligible_wallets) in
           if total_allocated \<noteq> expected_total then Inl (TotalMismatch total_allocated expected_total)
           else if total_allocated > total_pool then Inl (OverAllocated total_allocated total_pool)
           else Inr ()))"

definition validate_allocation :: "WalletAllocation list \<Rightarrow> (string, int) dict \<Rightarrow> int \<Rightarrow> bool" where
  "validate_allocation allocations eligible_wallets total_pool =
     (case validate_allocation_report allocations eligible_wallets total_pool of
        Inl failure \<Rightarrow> False
      | Inr ok \<Rightarrow> True)"

text \<open>The asset ids of all allocations, in the order in which the validator visits them.\<close>

definition allocated_ids :: "WalletAllocation list \<Rightarrow> string list" where
  "allocated_ids allocations = concat (map (\<lambda>a. map asset (nfts a)) allocations)"

section \<open>The random source\<close>

text \<open>
  \<^verbatim>\<open>random.seed\<close> and \<^verbatim>\<open>random.shuffle\<close> belong to Python's standard library. The state of
  the generator is a value of an arbitrary type \<open>'g\<close>; the library's \<^verbatim>\<open>_randbelow(n)\<close>, which
  draws a number below \<open>n\<close> and advances the state, is a parameter \<open>randbelow\<close> of the model,
  and \<^verbatim>\<open>random.seed\<close>, which computes a state from the seed string alone, a parameter
  \<open>seed_rng\<close>. The library's contract for \<^verbatim>\<open>_randbelow\<close> is \<open>rng_ok\<close>.
\<close>

definition rng_ok :: "(nat \<Rightarrow> 'g \<Rightarrow> nat \<times> 'g) \<Rightarrow> bool" where
  "rng_ok randbelow = (\<forall>n g. 0 < n \<longrightarrow> fst (randbelow n g) < n)"

text \<open>
  \<^verbatim>\<open>random.shuffle(x)\<close> is the loop
  \<^verbatim>\<open>for i in reversed(range(1, len(x))): j = randbelow(i + 1); x[i], x[j] = x[j], x[i]\<close>.
  The first argument of \<open>shuffle_loop\<close> is the index \<open>i\<close>; the loop ends below index 1.
  Under the contract \<open>j \<le> i < len(x)\<close>, so both indices of the exchange are in range; the
  properties of the shuffle below assume the contract.
\<close>

fun shuffle_loop :: "(nat \<Rightarrow> 'g \<Rightarrow> nat \<times> 'g) \<Rightarrow> nat \<Rightarrow> 'a list \<Rightarrow> 'g \<Rightarrow> 'a list \<times> 'g" where
  "shuffle_loop randbelow 0 x g = (x, g)"
| "shuffle_loop randbelow (Suc i) x g =
     (case randbelow (Suc i + 1) g of
        (j, g') \<Rightarrow> shuffle_loop randbelow i (x[Suc i := x ! j, j := x ! Suc i]) g')"

definition shuffle :: "(nat \<Rightarrow> 'g \<Rightarrow> nat \<times> 'g) \<Rightarrow> 'a list \<Rightarrow> 'g \<Rightarrow> 'a list \<times> 'g" where
  "shuffle randbelow x g = shuffle_loop randbelow (length x - 1) x g"

section \<open>\<^verbatim>\<open>NFTAllocator.__init__\<close> and \<^verbatim>\<open>NFTAllocator.generate_nft_pool\<close>\<close>

text \<open>
  The constructor calls \<^verbatim>\<open>random.seed(seed)\<close>: whatever the state of the process-wide
  generator was, it is replaced by the state computed from the seed.
\<close>

definition NFTAllocator_init :: "(string \<Rightarrow> 'g) \<Rightarrow> string \<Rightarrow> 'g \<Rightarrow> 'g" where
  "NFTAllocator_init seed_rng seed g = seed_rng seed"

text \<open>
  The ways in which \<^verbatim>\<open>generate_nft_pool\<close> does not return: \<^verbatim>\<open>sys.exit(1)\<close> after the error
  message has been printed, and the exceptions that the arithmetic of the count can raise,
  which nothing catches.
\<close>

datatype arith_error = OverflowError | ValueError

datatype error = SystemExit int | Raised arith_error

text \<open>
  The count of a bucket is \<^verbatim>\<open>int(total_nfts * percentage / 100)\<close>, where the percentage is a
  float: the product and the quotient are computed in binary floating point, each rounded,
  and \<^verbatim>\<open>int\<close> truncates the rounded quotient towards zero; \<^verbatim>\<open>int\<close> raises
  \<^verbatim>\<open>OverflowError\<close> for an infinite quotient and \<^verbatim>\<open>ValueError\<close> for one that is not a
  number. This evaluation belongs to the language, not to the program: it is a parameter
  \<open>pct_count\<close> of the model, which maps \<^verbatim>\<open>total_nfts\<close> and a percentage, a value of an
  arbitrary ordered type \<open>'p\<close>, to the integer or to the exception. The section on binary
  floating point below defines it for IEEE binary64, the arithmetic of Python floats.
\<close>

text \<open>
  The mode test \<^verbatim>\<open>len(pre_assigned_rarities) == total_nfts\<close>, where
  \<^verbatim>\<open>pre_assigned_rarities = [rarity for _, rarity in nft_assets if rarity is not None]\<close>.
\<close>

definition pre_assigned :: "(string \<times> string option) list \<Rightarrow> bool" where
  "pre_assigned nft_assets =
     (length [rar. (_, rar) \<leftarrow> nft_assets, rar \<noteq> None] = length nft_assets)"

text \<open>
  The loop \<^verbatim>\<open>for i, (rarity, percentage) in enumerate(sorted_rarities)\<close>: the arguments are
  \<^verbatim>\<open>total_nfts\<close>, \<^verbatim>\<open>len(sorted_rarities)\<close>, the index \<open>i\<close>, the entries still to visit,
  \<^verbatim>\<open>remaining_nfts\<close> and the dictionary \<^verbatim>\<open>rarity_counts\<close>.
\<close>

fun count_rarities ::
  "(nat \<Rightarrow> 'p \<Rightarrow> arith_error + int) \<Rightarrow> nat \<Rightarrow> nat \<Rightarrow> nat \<Rightarrow> (string \<times> 'p) list \<Rightarrow> int
     \<Rightarrow> (string, int) dict \<Rightarrow> arith_error + (string, int) dict" where
  "count_rarities pct_count total_nfts' n i [] remaining_nfts rarity_counts = Inr rarity_counts"
| "count_rarities pct_count total_nfts' n i ((rar, percentage) # rest) remaining_nfts rarity_counts =
     (if int i = int n - 1
      then count_rarities pct_count total_nfts' n (Suc i) rest remaining_nfts
             (AList.update rar remaining_nfts rarity_counts)
      else
        (case pct_count total_nfts' percentage of
           Inl exn \<Rightarrow> Inl exn
         | Inr cnt \<Rightarrow>
             count_rarities pct_count total_nfts' n (Suc i) rest (remaining_nfts - cnt)
               (AList.update rar cnt rarity_counts)))"

text \<open>
  The inner loop \<^verbatim>\<open>for _ in range(count)\<close> of the assignment: an iteration appends a pair
  while \<^verbatim>\<open>asset_index\<close> is inside \<^verbatim>\<open>asset_addresses\<close> and does nothing otherwise.
\<close>

fun assign_rarity ::
  "nat \<Rightarrow> string list \<Rightarrow> string \<Rightarrow> (string \<times> string) list \<Rightarrow> nat \<Rightarrow> (string \<times> string) list \<times> nat" where
  "assign_rarity 0 asset_addresses rar asset_rarity_pairs asset_index =
     (asset_rarity_pairs, asset_index)"
| "assign_rarity (Suc k) asset_addresses rar asset_rarity_pairs asset_index =
     (if asset_index < length asset_addresses
      then assign_rarity k asset_addresses rar
             (asset_rarity_pairs @ [(asset_addresses ! asset_index, rar)]) (Suc asset_index)
      else assign_rarity k asset_addresses rar asset_rarity_pairs asset_index)"

text \<open>The outer loop \<^verbatim>\<open>for rarity, count in sorted(rarity_counts.items())\<close>.\<close>

fun assign_rarities ::
  "(string \<times> int) list \<Rightarrow> string list \<Rightarrow> (string \<times> string) list \<Rightarrow> nat \<Rightarrow> (string \<times> string) list" where
  "assign_rarities [] asset_addresses asset_rarity_pairs asset_index = asset_rarity_pairs"
| "assign_rarities ((rar, cnt) # rest) asset_addresses asset_rarity_pairs asset_index =
     (case assign_rarity (nat cnt) asset_addresses rar asset_rarity_pairs asset_index of
        (asset_rarity_pairs', asset_index') \<Rightarrow>
          assign_rarities rest asset_addresses asset_rarity_pairs' asset_index')"

text \<open>
  \<^verbatim>\<open>generate_nft_pool\<close> reads and advances the generator; it returns the pool with the new
  state of the generator, or the exit. \<^verbatim>\<open>not rarity_percentages\<close> holds for \<^verbatim>\<open>None\<close> and for
  the empty dictionary.
\<close>

definition generate_nft_pool ::
  "(nat \<Rightarrow> 'p \<Rightarrow> arith_error + int) \<Rightarrow> (nat \<Rightarrow> 'g \<Rightarrow> nat \<times> 'g)
     \<Rightarrow> (string \<times> string option) list \<Rightarrow> (string, 'p :: linorder) dict option \<Rightarrow> 'g
     \<Rightarrow> error + (NFT list \<times> 'g)" where
  "generate_nft_pool pct_count randbelow nft_assets rarity_percentages g =
     (let total_nfts' = length nft_assets in
      if pre_assigned nft_assets
      then Inr (shuffle randbelow
                  (map (\<lambda>(addr, rar). \<lparr>asset = addr, rarity = rar\<rparr>) nft_assets) g)
      else
        (case rarity_percentages of
           None \<Rightarrow> Inl (SystemExit 1)
         | Some percentages \<Rightarrow>
             if percentages = [] then Inl (SystemExit 1)
             else
               (let asset_addresses = map fst nft_assets;
                    sorted_rarities = sort percentages
                in case count_rarities pct_count total_nfts' (length sorted_rarities) 0
                          sorted_rarities (int total_nfts') [] of
                     Inl exn \<Rightarrow> Inl (Raised exn)
                   | Inr rarity_counts \<Rightarrow>
                       (let asset_rarity_pairs =
                              assign_rarities (sort rarity_counts) asset_addresses [] 0
                        in case shuffle randbelow asset_rarity_pairs g of
                             (shuffled, g') \<Rightarrow>
                               Inr (map (\<lambda>(addr, rar). \<lparr>asset = addr, rarity = Some rar\<rparr>)
                                      shuffled,
                                    g')))))"


section \<open>Auxiliary notions for the pool builder\<close>

text \<open>
  The evaluation of the count raises for no bucket: the loop evaluates it for every entry
  of the sorted table but the last.
\<close>

definition counts_defined :: "(nat \<Rightarrow> 'p \<Rightarrow> arith_error + int) \<Rightarrow> nat \<Rightarrow> (string \<times> 'p) list \<Rightarrow> bool" where
  "counts_defined pct_count n srt = (\<forall>e \<in> set (butlast srt). \<exists>c. pct_count n (snd e) = Inr c)"

definition the_count :: "(nat \<Rightarrow> 'p \<Rightarrow> arith_error + int) \<Rightarrow> nat \<Rightarrow> 'p \<Rightarrow> int" where
  "the_count pct_count n p = (case pct_count n p of Inl exn \<Rightarrow> 0 | Inr c \<Rightarrow> c)"

text \<open>The counts of the buckets before the last one, in the order of the sorted table.\<close>

definition floors :: "('p \<Rightarrow> int) \<Rightarrow> (string \<times> 'p) list \<Rightarrow> (string \<times> int) list" where
  "floors cnt srt = map (\<lambda>(r, p). (r, cnt p)) srt"

text \<open>The dictionary \<^verbatim>\<open>rarity_counts\<close> in closed form: the last bucket takes what is left.\<close>

definition counts_of :: "('p \<Rightarrow> int) \<Rightarrow> nat \<Rightarrow> (string \<times> 'p) list \<Rightarrow> (string \<times> int) list" where
  "counts_of cnt n srt =
     floors cnt (butlast srt)
       @ [(fst (last srt), int n - sum_list (map snd (floors cnt (butlast srt))))]"

text \<open>The pairs that the assignment loops build from a list of addresses.\<close>

fun label_slices :: "(string \<times> int) list \<Rightarrow> string list \<Rightarrow> (string \<times> string) list" where
  "label_slices [] addrs = []"
| "label_slices ((r, c) # rest) addrs =
     map (\<lambda>a. (a, r)) (take (nat c) addrs) @ label_slices rest (drop (nat c) addrs)"

section \<open>Binary floating point\<close>

text \<open>
  Python's \<^verbatim>\<open>float\<close> is IEEE binary64: 53 significant bits, exponents from \<open>-1022\<close> to
  \<open>1023\<close>, results rounded to the nearest representable number, ties to the even
  significand. A finite float is represented by its value, a rational number;
  \<open>round_double\<close> rounds a rational number, and \<open>None\<close> stands for the infinity that a
  result of magnitude \<open>2\<^sup>1\<^sup>0\<^sup>2\<^sup>4\<close> or more becomes. \<open>floor_log2 x\<close> is the exponent of \<open>x\<close>;
  below \<open>2\<^sup>-\<^sup>1\<^sup>0\<^sup>2\<^sup>2\<close> the spacing stays that of the subnormal numbers.
\<close>

definition pow2 :: "int \<Rightarrow> rat" where
  "pow2 k = (if 0 \<le> k then 2 ^ nat k else 1 / 2 ^ nat (- k))"

definition floor_log2 :: "rat \<Rightarrow> int" where
  "floor_log2 x =
     (case quotient_of \<bar>x\<bar> of
        (a, b) \<Rightarrow> (let e = bitlen a - bitlen b in if pow2 e \<le> \<bar>x\<bar> then e else e - 1))"

definition round_half_even :: "rat \<Rightarrow> int" where
  "round_half_even r =
     (let f = \<lfloor>r\<rfloor>; d = r - of_int f
      in if d < 1 / 2 then f else if 1 / 2 < d then f + 1 else if even f then f else f + 1)"

definition round_double :: "rat \<Rightarrow> rat option" where
  "round_double x =
     (if x = 0 then Some 0
      else
        (let ulp = pow2 (max (floor_log2 x) (- 1022) - 52);
             y = of_int (round_half_even (x / ulp)) * ulp
         in if 1024 \<le> floor_log2 y then None else Some y))"

text \<open>\<^verbatim>\<open>int(x)\<close> for a finite float: truncation towards zero.\<close>

definition py_trunc :: "rat \<Rightarrow> int" where
  "py_trunc x = (if 0 \<le> x then \<lfloor>x\<rfloor> else \<lceil>x\<rceil>)"

text \<open>
  \<^verbatim>\<open>int(total_nfts * percentage / 100)\<close> for a percentage that the configuration file gives
  as the decimal number \<open>literal\<close>. Reading the file rounds the literal to a float (to
  infinity when it is too large); the product converts \<^verbatim>\<open>total_nfts\<close> to a float, which
  raises \<^verbatim>\<open>OverflowError\<close> when it is too large, and rounds (infinity times zero is not a
  number); the division by \<open>100\<close> rounds again; and \<^verbatim>\<open>int\<close> truncates, or raises for an
  infinite or undefined quotient. Multiplication and division themselves do not raise.
  A number that the file writes without fraction or exponent is read as an \<^verbatim>\<open>int\<close>: the
  product is then exact and only the division rounds, which yields the same count
  whenever the percentage and the product are below \<open>2\<^sup>5\<^sup>3\<close>.
\<close>

definition float_pct_count :: "nat \<Rightarrow> rat \<Rightarrow> arith_error + int" where
  "float_pct_count total_nfts' literal =
     (case round_double (of_nat total_nfts') of
        None \<Rightarrow> Inl OverflowError
      | Some total_float \<Rightarrow>
          (case round_double literal of
             None \<Rightarrow> Inl (if total_float = 0 then ValueError else OverflowError)
           | Some percentage \<Rightarrow>
               (case round_double (total_float * percentage) of
                  None \<Rightarrow> Inl OverflowError
                | Some scaled \<Rightarrow>
                    (case round_double (scaled / 100) of
                       None \<Rightarrow> Inl OverflowError
                     | Some q \<Rightarrow> Inr (py_trunc q)))))"

section \<open>Example inputs\<close>

definition demo_pool :: "NFT list" where
  "demo_pool =
     [\<lparr>asset = ''n1'', rarity = Some ''Common''\<rparr>, \<lparr>asset = ''n2'', rarity = Some ''Rare''\<rparr>,
      \<lparr>asset = ''n3'', rarity = Some ''Common''\<rparr>, \<lparr>asset = ''n4'', rarity = Some ''Common''\<rparr>,
      \<lparr>asset = ''n5'', rarity = Some ''Rare''\<rparr>]"

text \<open>
  A generator for examples: its state is a fixed sequence of numbers, \<open>randbelow n\<close> takes
  the next one modulo \<open>n\<close>, and seeding yields the character codes of the seed.
\<close>

fun stub_randbelow :: "nat \<Rightarrow> nat list \<Rightarrow> nat \<times> nat list" where
  "stub_randbelow n [] = (0, [])"
| "stub_randbelow n (x # xs) = (x mod n, xs)"

definition stub_seed :: "string \<Rightarrow> nat list" where
  "stub_seed s = map of_char s"

definition duplicated_allocation :: "WalletAllocation list" where
  "duplicated_allocation =
     [\<lparr>wallet = ''A'',
       nfts = [\<lparr>asset = ''n1'', rarity = Some ''Common''\<rparr>, \<lparr>asset = ''n1'', rarity = Some ''Common''\<rparr>],
       total_nfts = 2\<rparr>]"

definition stray_allocation :: "int \<Rightarrow> WalletAllocation" where
  "stray_allocation n = \<lparr>wallet = ''Z'', nfts = [], total_nfts = n\<rparr>"

definition mixed_assets :: "(string \<times> string option) list" where
  "mixed_assets = [(''n1'', Some ''Rare''), (''n2'', None)]"

definition half_table :: "(string, rat) dict" where
  "half_table = [(''Rare'', 50), (''Common'', 50)]"



definition labelled_assets :: "(string \<times> string option) list" where
  "labelled_assets = [(''n1'', Some ''Rare''), (''n2'', Some ''Common''), (''n3'', Some ''Common'')]"






section \<open>Properties of the allocation loops\<close>

lemma draw_nfts_eq:
  "draw_nfts k pool i acc =
     (acc @ take k (drop i pool), if i \<le> length pool then min (i + k) (length pool) else i)"
proof (induction k arbitrary: i acc)
  case 0
  then show ?case by simp
next
  case (Suc k)
  show ?case
  proof (cases "i < length pool")
    case True
    then have "drop i pool = pool ! i # drop (Suc i) pool"
      by (simp add: Cons_nth_drop_Suc)
    with True Suc show ?thesis by simp
  next
    case False
    then show ?thesis by simp
  qed
qed

lemma slices_beyond:
  "length pool \<le> i \<Longrightarrow>
     slices pool i es = map (\<lambda>e. \<lparr>wallet = fst e, nfts = [], total_nfts = 0\<rparr>) es"
  by (induction es arbitrary: i) (auto simp: trans_le_add1)

lemma allocate_loop_slices: "i \<le> length pool \<Longrightarrow> allocate_loop pool i es = slices pool i es"
proof (induction es arbitrary: i)
  case Nil
  then show ?case by simp
next
  case (Cons e es)
  obtain w c where e: "e = (w, c)" by (cases e)
  show ?case
  proof (cases "i + nat c \<le> length pool")
    case True
    with Cons e show ?thesis by (simp add: draw_nfts_eq min_def)
  next
    case False
    then have "slices pool (length pool) es = slices pool (i + nat c) es"
      by (simp add: slices_beyond)
    with False Cons e show ?thesis by (simp add: draw_nfts_eq min_def)
  qed
qed

lemma allocate_nfts_slices: "allocate_nfts pool ew = slices pool 0 (sort ew)"
  by (simp add: allocate_nfts_def allocate_loop_slices)

lemma draws_simps [simp]:
  "draws [] = 0" "draws (e # es) = nat (snd e) + draws es" "draws (xs @ ys) = draws xs + draws ys"
  by (simp_all add: draws_def)

lemma slices_wallets: "map wallet (slices pool i es) = map fst es"
  by (induction es arbitrary: i) auto

lemma slices_length [simp]: "length (slices pool i es) = length es"
  by (induction es arbitrary: i) auto

lemma slices_concat: "concat (map nfts (slices pool i es)) = take (draws es) (drop i pool)"
proof (induction es arbitrary: i)
  case Nil
  then show ?case by simp
next
  case (Cons e es)
  obtain w c where e: "e = (w, c)" by (cases e)
  have "take (nat c + draws es) (drop i pool)
          = take (nat c) (drop i pool) @ take (draws es) (drop (i + nat c) pool)"
    by (simp add: take_add add.commute)
  with Cons e show ?case by simp
qed

lemma slices_nth:
  "k < length es \<Longrightarrow>
     slices pool i es ! k =
       \<lparr>wallet = fst (es ! k),
        nfts = take (nat (snd (es ! k))) (drop (i + draws (take k es)) pool),
        total_nfts = int (length (take (nat (snd (es ! k))) (drop (i + draws (take k es)) pool)))\<rparr>"
proof (induction es arbitrary: i k)
  case Nil
  then show ?case by simp
next
  case (Cons e es)
  obtain w c where e: "e = (w, c)" by (cases e)
  show ?case
  proof (cases k)
    case 0
    with e show ?thesis by simp
  next
    case (Suc k')
    with Cons.prems have "k' < length es" by simp
    from Cons.IH [OF this, of "i + nat c"] e Suc show ?thesis
      by (simp add: add.assoc)
  qed
qed

lemma slices_total: "a \<in> set (slices pool i es) \<Longrightarrow> total_nfts a = int (length (nfts a))"
  by (induction es arbitrary: i) auto

lemma slices_exact:
  "i + draws es \<le> length pool \<Longrightarrow> map total_nfts (slices pool i es) = map (\<lambda>e. int (nat (snd e))) es"
  by (induction es arbitrary: i) (auto simp: add.assoc)


lemma fst_le_of_prod_le: "(p :: 'a::linorder \<times> 'b::linorder) \<le> q \<Longrightarrow> fst p \<le> fst q"
  by (cases p, cases q) (auto simp: less_eq_prod_def)

lemma sorted_keys_sort: "sorted (map fst (sort (d :: ('a::linorder \<times> 'b::linorder) list)))"
proof -
  have "sorted (sort d)" by simp
  then have "sorted_wrt (\<lambda>p q. fst p \<le> fst q) (sort d)"
    by (rule sorted_wrt_mono_rel [rotated]) (simp add: fst_le_of_prod_le)
  then show ?thesis by (simp add: sorted_map)
qed

lemma dict_ok_sort: "dict_ok d \<Longrightarrow> dict_ok (sort (d :: ('a::linorder \<times> 'b::linorder) list))"
proof -
  assume "dict_ok d"
  have "mset (map fst (sort d)) = mset (map fst d)" by simp
  then have "distinct (map fst (sort d)) = distinct (map fst d)"
    by (rule mset_eq_imp_distinct_iff)
  with \<open>dict_ok d\<close> show ?thesis by (simp add: dict_ok_def)
qed

lemma dict_eq_sort:
  assumes "dict_ok d" "dict_ok d'" "set d' = set d"
  shows "sort d' = sort (d :: ('a::linorder \<times> 'b::linorder) list)"
proof -
  from assms have "distinct d" "distinct d'"
    by (auto simp: dict_ok_def distinct_map)
  with assms(3) have "mset d' = mset d"
    by (simp add: set_eq_iff_mset_eq_distinct)
  then show ?thesis
    by (intro properties_for_sort) simp_all
qed

lemma dict_get_mem: "dict_ok d \<Longrightarrow> (k, v) \<in> set d \<Longrightarrow> map_of d k = Some v"
  by (simp add: dict_ok_def)

lemma sum_values_sort: "sum_list (map snd (sort d)) = sum_list (map snd (d :: (string \<times> int) list))"
proof -
  have "mset (map snd (sort d)) = mset (map snd d)" by simp
  then show ?thesis by (metis sum_mset_sum_list)
qed

lemma draws_sort: "draws (sort d) = draws d"
proof -
  have "mset (map (\<lambda>e. nat (snd e)) (sort d)) = mset (map (\<lambda>e. nat (snd e)) d)" by simp
  then show ?thesis unfolding draws_def by (metis sum_mset_sum_list)
qed

lemma draws_ge: "sum_list (map snd es) \<le> int (draws es)"
  by (induction es) auto

lemma draws_pos: "\<forall>e \<in> set es. 0 \<le> snd e \<Longrightarrow> int (draws es) = sum_list (map snd es)"
  by (induction es) auto

lemma draws_take_mono: "j \<le> k \<Longrightarrow> draws (take j es) \<le> draws (take k es)"
proof -
  assume "j \<le> k"
  then have "take k es = take j es @ take (k - j) (drop j es)"
    by (metis le_add_diff_inverse take_add)
  then show ?thesis by simp
qed


lemma take_slices: "take k (slices pool i es) = slices pool i (take k es)"
proof (induction es arbitrary: i k)
  case Nil
  then show ?case by simp
next
  case (Cons e es)
  then show ?case by (cases k; cases e) simp_all
qed

lemma cursor_before_slices:
  "cursor_before (slices pool 0 es) k = min (draws (take k es)) (length pool)"
  by (simp add: cursor_before_def take_slices slices_concat min.commute)

lemma slices_nth_cursor:
  assumes "k < length es"
  shows "nfts (slices pool 0 es ! k)
           = take (nat (snd (es ! k))) (drop (cursor_before (slices pool 0 es) k) pool)"
proof (cases "draws (take k es) \<le> length pool")
  case True
  with assms show ?thesis by (simp add: slices_nth cursor_before_slices min_def)
next
  case False
  with assms show ?thesis by (simp add: slices_nth cursor_before_slices min_def)
qed

lemma allocate_nfts_total:
  "a \<in> set (allocate_nfts pool ew) \<Longrightarrow> total_nfts a = int (length (nfts a))"
  by (simp add: allocate_nfts_slices slices_total)

text \<open>
  Claim C1. For every pool and every entitlement table in which each recipient's count is
  positive and the counts sum to the length of the pool, \<^verbatim>\<open>allocate_nfts\<close> returns exactly one
  allocation per recipient (the recipients in sorted order, each once), the \<^verbatim>\<open>total_nfts\<close>
  of each allocation is that recipient's entitlement and the number of items it holds, and
  the sum of all \<^verbatim>\<open>total_nfts\<close> equals the sum of the entitlements and the size of the pool.
\<close>

theorem allocate_nfts_exact:
  assumes ok: "dict_ok ew"
    and pos: "\<forall>e \<in> set ew. 0 < snd e"
    and total: "sum_list (dict_values ew) = int (length pool)"
  shows "map wallet (allocate_nfts pool ew) = map fst (sort ew)
       \<and> mset (map wallet (allocate_nfts pool ew)) = mset (map fst ew)
       \<and> distinct (map wallet (allocate_nfts pool ew))
       \<and> (\<forall>a \<in> set (allocate_nfts pool ew).
            map_of ew (wallet a) = Some (total_nfts a) \<and> int (length (nfts a)) = total_nfts a)
       \<and> sum_list (map total_nfts (allocate_nfts pool ew)) = sum_list (dict_values ew)
       \<and> sum_list (map total_nfts (allocate_nfts pool ew)) = int (length pool)"
proof -
  let ?es = "sort ew"
  let ?as = "allocate_nfts pool ew"
  have as: "?as = slices pool 0 ?es" by (rule allocate_nfts_slices)
  have w: "map wallet ?as = map fst ?es" by (simp add: as slices_wallets)
  have m: "mset (map wallet ?as) = mset (map fst ew)" by (simp add: w)
  have d: "distinct (map wallet ?as)"
    using dict_ok_sort [OF ok] by (simp add: w dict_ok_def)
  have pos': "\<forall>e \<in> set ?es. 0 \<le> snd e" using pos by auto
  have "int (draws ?es) = sum_list (map snd ?es)" by (rule draws_pos [OF pos'])
  with total have dr: "draws ?es = length pool"
    by (simp add: sum_values_sort dict_values_def)
  then have "map total_nfts ?as = map (\<lambda>e. int (nat (snd e))) ?es"
    by (simp add: as slices_exact)
  also have "\<dots> = map snd ?es" using pos' by simp
  finally have t: "map total_nfts ?as = map snd ?es" .
  have s: "sum_list (map total_nfts ?as) = sum_list (dict_values ew)"
    by (simp add: t sum_values_sort dict_values_def)
  have each: "map_of ew (wallet a) = Some (total_nfts a) \<and> int (length (nfts a)) = total_nfts a"
    if "a \<in> set ?as" for a
  proof -
    from that obtain k where k: "k < length ?as" "?as ! k = a"
      by (auto simp: in_set_conv_nth)
    then have k': "k < length ?es" by (simp add: as)
    from k k' have "wallet a = fst (?es ! k)"
      using arg_cong [OF w, of "\<lambda>xs. xs ! k"] by simp
    moreover from k k' have "total_nfts a = snd (?es ! k)"
      using arg_cong [OF t, of "\<lambda>xs. xs ! k"] by simp
    moreover from k' have "?es ! k \<in> set ew"
      using nth_mem [OF k'] by simp
    ultimately have "(wallet a, total_nfts a) \<in> set ew" by simp
    with ok have "map_of ew (wallet a) = Some (total_nfts a)" by (rule dict_get_mem)
    with that show ?thesis by (simp add: allocate_nfts_total)
  qed
  from w m d each s total show ?thesis by simp
qed


lemma demo_allocation:
  "allocate_nfts demo_pool [(''B'', 3), (''A'', 2)] =
     [\<lparr>wallet = ''A'', nfts = take 2 demo_pool, total_nfts = 2\<rparr>,
      \<lparr>wallet = ''B'', nfts = drop 2 demo_pool, total_nfts = 3\<rparr>]"
  by (simp add: allocate_nfts_def demo_pool_def draw_nfts_eq)

theorem allocate_nfts_exact_witness:
  "dict_ok [(''B'', 3::int), (''A'', 2)]
   \<and> list_all (\<lambda>e. 0 < snd e) [(''B'', 3::int), (''A'', 2)]
   \<and> sum_list (dict_values [(''B'', 3::int), (''A'', 2)]) = int (length demo_pool)
   \<and> map wallet (allocate_nfts demo_pool [(''B'', 3), (''A'', 2)]) = [''A'', ''B'']
   \<and> map total_nfts (allocate_nfts demo_pool [(''B'', 3), (''A'', 2)]) = [2, 3]
   \<and> sum_list (map total_nfts (allocate_nfts demo_pool [(''B'', 3), (''A'', 2)])) = 5"
proof -
  have h1: "dict_ok [(''B'', 3::int), (''A'', 2)]" by (simp add: dict_ok_def)
  have h2: "\<forall>e \<in> set [(''B'', 3::int), (''A'', 2)]. 0 < snd e" by simp
  have h3: "sum_list (dict_values [(''B'', 3::int), (''A'', 2)]) = int (length demo_pool)"
    by (simp add: dict_values_def demo_pool_def)
  have w: "map wallet (allocate_nfts demo_pool [(''B'', 3), (''A'', 2)]) = [''A'', ''B'']"
    and t: "map total_nfts (allocate_nfts demo_pool [(''B'', 3), (''A'', 2)]) = [2, 3]"
    by (simp_all add: demo_allocation)
  from allocate_nfts_exact [OF h1 h2 h3]
  have "sum_list (map total_nfts (allocate_nfts demo_pool [(''B'', 3), (''A'', 2)])) = int (length demo_pool)"
    by blast
  then have "sum_list (map total_nfts (allocate_nfts demo_pool [(''B'', 3), (''A'', 2)])) = 5"
    by (simp add: demo_pool_def)
  moreover have "list_all (\<lambda>e. 0 < snd e) [(''B'', 3::int), (''A'', 2)]" by simp
  ultimately show ?thesis using h1 h3 w t by blast
qed

lemma allocate_nfts_concat:
  "concat (map nfts (allocate_nfts pool ew)) = take (draws ew) pool"
  by (simp add: allocate_nfts_slices slices_concat draws_sort)

lemma strict_sorted_keys_sort:
  "dict_ok d \<Longrightarrow> sorted_wrt (<) (map fst (sort (d :: ('a::linorder \<times> 'b::linorder) list)))"
  using dict_ok_sort [of d] sorted_keys_sort [of d]
  by (simp add: strict_sorted_iff dict_ok_def)

lemma take_length_self: "xs = take n ys \<Longrightarrow> xs = take (length xs) ys"
  by (simp add: min_def)

text \<open>
  Claim C6. For every pool and entitlement table, \<^verbatim>\<open>allocate_nfts\<close> emits the allocations in
  strictly ascending order of the recipient identifier, and the result does not depend on
  the iteration order of the table (two tables with the same entries give the same
  allocations). The items of the \<open>k\<close>-th allocation are the slice of the pool that starts
  at the cursor, which is the number of items handed out before it; the slice of an earlier
  recipient ends at or before the start of a later one, so that no two slices overlap; and
  the concatenation of all slices is a prefix of the pool.
\<close>

theorem allocate_nfts_order_and_slices:
  assumes "dict_ok ew" and "dict_ok ew'" and "set ew' = set ew"
  shows "sorted_wrt (<) (map wallet (allocate_nfts pool ew))
       \<and> allocate_nfts pool ew' = allocate_nfts pool ew
       \<and> (\<forall>k < length (allocate_nfts pool ew).
            nfts (allocate_nfts pool ew ! k) =
              take (length (nfts (allocate_nfts pool ew ! k)))
                (drop (cursor_before (allocate_nfts pool ew) k) pool))
       \<and> (\<forall>j k. j < k \<and> k < length (allocate_nfts pool ew) \<longrightarrow>
            cursor_before (allocate_nfts pool ew) j + length (nfts (allocate_nfts pool ew ! j))
              \<le> cursor_before (allocate_nfts pool ew) k)
       \<and> prefix (concat (map nfts (allocate_nfts pool ew))) pool"
proof -
  let ?es = "sort ew"
  let ?as = "allocate_nfts pool ew"
  have as: "?as = slices pool 0 ?es" by (rule allocate_nfts_slices)
  have 1: "sorted_wrt (<) (map wallet ?as)"
    using strict_sorted_keys_sort [OF assms(1)] by (simp add: as slices_wallets)
  have 2: "allocate_nfts pool ew' = ?as"
    by (simp add: allocate_nfts_def dict_eq_sort [OF assms])
  have 3: "\<forall>k < length ?as.
             nfts (?as ! k) = take (length (nfts (?as ! k))) (drop (cursor_before ?as k) pool)"
  proof (intro allI impI)
    fix k assume "k < length ?as"
    then have k: "k < length ?es" by (simp add: as)
    have "nfts (?as ! k) = take (nat (snd (?es ! k))) (drop (cursor_before ?as k) pool)"
      unfolding as by (rule slices_nth_cursor [OF k])
    then show "nfts (?as ! k) = take (length (nfts (?as ! k))) (drop (cursor_before ?as k) pool)"
      by (rule take_length_self)
  qed
  have 4: "\<forall>j k. j < k \<and> k < length ?as \<longrightarrow>
             cursor_before ?as j + length (nfts (?as ! j)) \<le> cursor_before ?as k"
  proof (intro allI impI)
    fix j k assume "j < k \<and> k < length ?as"
    then have "Suc j \<le> k" "j < length ?as" by simp_all
    then have "take (Suc j) ?as = take j ?as @ [?as ! j]"
      by (simp add: take_Suc_conv_app_nth)
    then have "cursor_before ?as (Suc j) = cursor_before ?as j + length (nfts (?as ! j))"
      by (simp add: cursor_before_def)
    moreover have "cursor_before ?as (Suc j) \<le> cursor_before ?as k"
      unfolding as cursor_before_slices
      using draws_take_mono [OF \<open>Suc j \<le> k\<close>, of ?es] by (simp add: min.coboundedI1)
    ultimately show "cursor_before ?as j + length (nfts (?as ! j)) \<le> cursor_before ?as k"
      by simp
  qed
  have 5: "prefix (concat (map nfts ?as)) pool"
    by (simp add: allocate_nfts_concat take_is_prefix)
  show ?thesis by (intro conjI 1 2 3 4 5)
qed

text \<open>
  Claim C9. For every pool with distinct item ids and every entitlement table whose counts
  sum to the length of the pool, the union of the item ids of all allocations returned by
  \<^verbatim>\<open>allocate_nfts\<close> is the set of the pool's item ids: the allocations taken together are
  the pool itself, in pool order, and no id is handed out twice.
\<close>

theorem allocate_nfts_complete:
  assumes total: "sum_list (dict_values ew) = int (length pool)"
    and ids: "distinct (map asset pool)"
  shows "(\<Union>a \<in> set (allocate_nfts pool ew). set (map asset (nfts a))) = set (map asset pool)
       \<and> concat (map nfts (allocate_nfts pool ew)) = pool
       \<and> distinct (map asset (concat (map nfts (allocate_nfts pool ew))))"
proof -
  from total draws_ge [of ew] have "length pool \<le> draws ew"
    by (simp add: dict_values_def)
  then have c: "concat (map nfts (allocate_nfts pool ew)) = pool"
    by (simp add: allocate_nfts_concat)
  have "(\<Union>a \<in> set (allocate_nfts pool ew). set (map asset (nfts a)))
          = set (map asset (concat (map nfts (allocate_nfts pool ew))))"
    by (simp add: image_UN)
  with c ids show ?thesis by simp
qed


lemma draws_take_Suc: "k < length es \<Longrightarrow> draws (take (Suc k) es) = draws (take k es) + nat (snd (es ! k))"
  by (simp add: take_Suc_conv_app_nth)

lemma slices_nth_length:
  "k < length es \<Longrightarrow>
     length (nfts (slices pool 0 es ! k)) = min (nat (snd (es ! k))) (length pool - draws (take k es))"
  by (simp add: slices_nth min.commute)

lemma first_shortfall:
  assumes "length pool < draws es"
  shows "\<exists>k < length es. draws (take k es) \<le> length pool \<and> length pool < draws (take (Suc k) es)
           \<and> (\<forall>j < k. draws (take (Suc j) es) \<le> length pool)"
proof -
  define P where "P k \<longleftrightarrow> length pool < draws (take (Suc k) es)" for k
  from assms have "P (length es)" by (simp add: P_def)
  then have ex: "\<exists>k. P k" ..
  define k where "k = (LEAST k. P k)"
  have Pk: "P k" unfolding k_def using ex by (rule LeastI_ex)
  have less: "\<not> P j" if "j < k" for j
    using that unfolding k_def by (rule not_less_Least)
  have klen: "k < length es"
  proof (rule ccontr)
    assume "\<not> k < length es"
    then have "length es \<le> k" by simp
    moreover have "es \<noteq> []" using assms by auto
    ultimately have "length es - 1 < k" by (cases es) simp_all
    from less [OF this] assms \<open>es \<noteq> []\<close> show False by (simp add: P_def)
  qed
  have before: "draws (take k es) \<le> length pool"
  proof (cases k)
    case 0
    then show ?thesis by simp
  next
    case (Suc j)
    then have "j < k" by simp
    from less [OF this] Suc show ?thesis by (simp add: P_def)
  qed
  have "\<forall>j < k. draws (take (Suc j) es) \<le> length pool"
    using less by (auto simp: P_def not_less)
  with klen before Pk show ?thesis unfolding P_def by blast
qed

text \<open>
  Claim C8. For every pool and entitlement table whose counts sum to more than the length
  of the pool, \<^verbatim>\<open>allocate_nfts\<close> still returns one allocation per recipient, in sorted order;
  each allocation holds the items from the cursor on, at most as many as the recipient's
  count. There is a recipient before whom everybody is served in full, who receives exactly
  the items that remained (fewer than the entitlement, possibly none), and after whom every
  recipient receives no item and has \<^verbatim>\<open>total_nfts\<close> zero. The whole pool is handed out.
  The function is total: it has no failing branch.
\<close>

theorem allocate_nfts_shortfall:
  assumes over: "int (length pool) < sum_list (dict_values ew)"
  shows "map wallet (allocate_nfts pool ew) = map fst (sort ew)
       \<and> (\<forall>k < length (allocate_nfts pool ew).
            nfts (allocate_nfts pool ew ! k) =
              take (nat (snd (sort ew ! k))) (drop (cursor_before (allocate_nfts pool ew) k) pool)
            \<and> total_nfts (allocate_nfts pool ew ! k) = int (length (nfts (allocate_nfts pool ew ! k))))
       \<and> (\<exists>k < length (allocate_nfts pool ew).
            (\<forall>j < k. length (nfts (allocate_nfts pool ew ! j)) = nat (snd (sort ew ! j)))
            \<and> length (nfts (allocate_nfts pool ew ! k)) = length pool - cursor_before (allocate_nfts pool ew) k
            \<and> length (nfts (allocate_nfts pool ew ! k)) < nat (snd (sort ew ! k))
            \<and> (\<forall>j. k < j \<and> j < length (allocate_nfts pool ew) \<longrightarrow>
                  nfts (allocate_nfts pool ew ! j) = [] \<and> total_nfts (allocate_nfts pool ew ! j) = 0))
       \<and> concat (map nfts (allocate_nfts pool ew)) = pool"
proof -
  let ?es = "sort ew"
  let ?as = "allocate_nfts pool ew"
  have as: "?as = slices pool 0 ?es" by (rule allocate_nfts_slices)
  have len: "length ?as = length ?es" by (simp add: as)
  from over draws_ge [of ew] have dr: "length pool < draws ?es"
    by (simp add: dict_values_def draws_sort)
  have 1: "map wallet ?as = map fst ?es" by (simp add: as slices_wallets)
  have 2: "\<forall>k < length ?as.
             nfts (?as ! k) = take (nat (snd (?es ! k))) (drop (cursor_before ?as k) pool)
             \<and> total_nfts (?as ! k) = int (length (nfts (?as ! k)))"
  proof (intro allI impI conjI)
    fix k assume k: "k < length ?as"
    then have k': "k < length ?es" by (simp add: as)
    show "nfts (?as ! k) = take (nat (snd (?es ! k))) (drop (cursor_before ?as k) pool)"
      unfolding as by (rule slices_nth_cursor [OF k'])
    from k show "total_nfts (?as ! k) = int (length (nfts (?as ! k)))"
      by (rule allocate_nfts_total [OF nth_mem])
  qed
  from first_shortfall [OF dr] obtain k where k: "k < length ?es"
    and before: "draws (take k ?es) \<le> length pool"
    and short: "length pool < draws (take (Suc k) ?es)"
    and full: "\<forall>j < k. draws (take (Suc j) ?es) \<le> length pool"
    by blast
  have a: "\<forall>j < k. length (nfts (?as ! j)) = nat (snd (?es ! j))"
  proof (intro allI impI)
    fix j assume j: "j < k"
    with k have j': "j < length ?es" by simp
    from full j have "draws (take (Suc j) ?es) \<le> length pool" by simp
    with j' show "length (nfts (?as ! j)) = nat (snd (?es ! j))"
      by (simp add: as slices_nth_length draws_take_Suc)
  qed
  have cur: "cursor_before ?as k = draws (take k ?es)"
    using before by (simp add: as cursor_before_slices)
  from k short have b: "length (nfts (?as ! k)) = length pool - cursor_before ?as k"
    by (simp add: cur) (simp add: as slices_nth_length draws_take_Suc)
  from k short before have c: "length (nfts (?as ! k)) < nat (snd (?es ! k))"
    by (simp add: as slices_nth_length draws_take_Suc)
  have d: "\<forall>j. k < j \<and> j < length ?as \<longrightarrow> nfts (?as ! j) = [] \<and> total_nfts (?as ! j) = 0"
  proof (intro allI impI)
    fix j assume j: "k < j \<and> j < length ?as"
    then have j': "j < length ?es" and "Suc k \<le> j" by (simp_all add: as)
    from draws_take_mono [OF \<open>Suc k \<le> j\<close>, of ?es] short
    have "length pool < draws (take j ?es)" by simp
    with j' have "nfts (?as ! j) = []" by (simp add: as slices_nth)
    moreover from j 2 have "total_nfts (?as ! j) = int (length (nfts (?as ! j)))" by simp
    ultimately show "nfts (?as ! j) = [] \<and> total_nfts (?as ! j) = 0" by simp
  qed
  from k have 3: "\<exists>k < length ?as.
            (\<forall>j < k. length (nfts (?as ! j)) = nat (snd (?es ! j)))
            \<and> length (nfts (?as ! k)) = length pool - cursor_before ?as k
            \<and> length (nfts (?as ! k)) < nat (snd (?es ! k))
            \<and> (\<forall>j. k < j \<and> j < length ?as \<longrightarrow> nfts (?as ! j) = [] \<and> total_nfts (?as ! j) = 0)"
    using a b c d unfolding len by (intro exI [of _ k] conjI)
  from dr have 4: "concat (map nfts ?as) = pool"
    by (simp add: allocate_nfts_concat draws_sort)
  show ?thesis by (intro conjI 1 2 3 4)
qed


lemma demo_shortfall:
  "allocate_nfts demo_pool [(''C'', 2), (''B'', 3), (''A'', 4)] =
     [\<lparr>wallet = ''A'', nfts = take 4 demo_pool, total_nfts = 4\<rparr>,
      \<lparr>wallet = ''B'', nfts = drop 4 demo_pool, total_nfts = 1\<rparr>,
      \<lparr>wallet = ''C'', nfts = [], total_nfts = 0\<rparr>]"
  by (simp add: allocate_nfts_def demo_pool_def draw_nfts_eq)

theorem allocate_nfts_order_and_slices_witness:
  "dict_ok [(''B'', 3::int), (''A'', 2)] \<and> dict_ok [(''A'', 2::int), (''B'', 3)]
   \<and> set [(''A'', 2::int), (''B'', 3)] = set [(''B'', 3), (''A'', 2)]
   \<and> sorted_wrt (<) (map wallet (allocate_nfts demo_pool [(''B'', 3), (''A'', 2)]))
   \<and> allocate_nfts demo_pool [(''A'', 2), (''B'', 3)] = allocate_nfts demo_pool [(''B'', 3), (''A'', 2)]
   \<and> map wallet (allocate_nfts demo_pool [(''B'', 3), (''A'', 2)]) = [''A'', ''B'']
   \<and> nfts (allocate_nfts demo_pool [(''B'', 3), (''A'', 2)] ! 1) = take 3 (drop 2 demo_pool)
   \<and> prefix (concat (map nfts (allocate_nfts demo_pool [(''B'', 3), (''A'', 2)]))) demo_pool"
proof -
  have h1: "dict_ok [(''B'', 3::int), (''A'', 2)]" by (simp add: dict_ok_def)
  have h2: "dict_ok [(''A'', 2::int), (''B'', 3)]" by (simp add: dict_ok_def)
  have h3: "set [(''A'', 2::int), (''B'', 3)] = set [(''B'', 3), (''A'', 2)]" by auto
  note t = allocate_nfts_order_and_slices [OF h1 h2 h3, of demo_pool]
  have w: "map wallet (allocate_nfts demo_pool [(''B'', 3), (''A'', 2)]) = [''A'', ''B'']"
    by (simp add: demo_allocation)
  have n: "nfts (allocate_nfts demo_pool [(''B'', 3), (''A'', 2)] ! 1) = take 3 (drop 2 demo_pool)"
    unfolding demo_allocation by (simp add: demo_pool_def)
  from t h1 h2 h3 w n show ?thesis by blast
qed

theorem allocate_nfts_shortfall_witness:
  "int (length demo_pool) < sum_list (dict_values [(''C'', 2), (''B'', 3), (''A'', 4)])
   \<and> map wallet (allocate_nfts demo_pool [(''C'', 2), (''B'', 3), (''A'', 4)]) = [''A'', ''B'', ''C'']
   \<and> map total_nfts (allocate_nfts demo_pool [(''C'', 2), (''B'', 3), (''A'', 4)]) = [4, 1, 0]
   \<and> concat (map nfts (allocate_nfts demo_pool [(''C'', 2), (''B'', 3), (''A'', 4)])) = demo_pool"
proof -
  have h: "int (length demo_pool) < sum_list (dict_values [(''C'', 2), (''B'', 3), (''A'', 4)])"
    by (simp add: dict_values_def demo_pool_def)
  note t = allocate_nfts_shortfall [OF h]
  have w: "map wallet (allocate_nfts demo_pool [(''C'', 2), (''B'', 3), (''A'', 4)]) = [''A'', ''B'', ''C'']"
    and n: "map total_nfts (allocate_nfts demo_pool [(''C'', 2), (''B'', 3), (''A'', 4)]) = [4, 1, 0]"
    by (simp_all add: demo_shortfall)
  from t have "concat (map nfts (allocate_nfts demo_pool [(''C'', 2), (''B'', 3), (''A'', 4)])) = demo_pool"
    by blast
  with h w n show ?thesis by blast
qed

theorem allocate_nfts_complete_witness:
  "sum_list (dict_values [(''B'', 3), (''A'', 2)]) = int (length demo_pool)
   \<and> distinct (map asset demo_pool)
   \<and> (\<Union>a \<in> set (allocate_nfts demo_pool [(''B'', 3), (''A'', 2)]). set (map asset (nfts a)))
       = {''n1'', ''n2'', ''n3'', ''n4'', ''n5''}"
proof -
  have h1: "sum_list (dict_values [(''B'', 3), (''A'', 2)]) = int (length demo_pool)"
    by (simp add: dict_values_def demo_pool_def)
  have h2: "distinct (map asset demo_pool)" by (simp add: demo_pool_def)
  have "set (map asset demo_pool) = {''n1'', ''n2'', ''n3'', ''n4'', ''n5''}"
    by (simp add: demo_pool_def)
  with allocate_nfts_complete [OF h1 h2] h1 h2 show ?thesis by simp
qed

section \<open>Properties of the validator\<close>

lemma check_duplicates_Inr:
  "check_duplicates ns ids = Inr ids' \<longleftrightarrow>
     distinct (map asset ns) \<and> set (map asset ns) \<inter> ids = {} \<and> ids' = ids \<union> set (map asset ns)"
  by (induction ns arbitrary: ids) auto

lemma validate_loop_Inr:
  "validate_loop as ew t ids = Inr (t', ids') \<longleftrightarrow>
     (\<forall>a \<in> set as. total_nfts a = dict_get ew (wallet a) 0)
     \<and> distinct (allocated_ids as) \<and> set (allocated_ids as) \<inter> ids = {}
     \<and> t' = t + sum_list (map total_nfts as) \<and> ids' = ids \<union> set (allocated_ids as)"
proof (induction as arbitrary: t ids)
  case Nil
  then show ?case by (auto simp: allocated_ids_def)
next
  case (Cons a as)
  show ?case
  proof (cases "total_nfts a = dict_get ew (wallet a) 0")
    case False
    then show ?thesis by (simp add: Let_def)
  next
    case True
    show ?thesis
    proof (cases "check_duplicates (nfts a) ids")
      case (Inl e)
      then have "\<not> (distinct (map asset (nfts a)) \<and> set (map asset (nfts a)) \<inter> ids = {})"
        using check_duplicates_Inr [of "nfts a" ids] by auto
      with True Inl show ?thesis by (auto simp: Let_def allocated_ids_def)
    next
      case (Inr ids1)
      then have d: "distinct (map asset (nfts a))" "set (map asset (nfts a)) \<inter> ids = {}"
        "ids1 = ids \<union> set (map asset (nfts a))"
        by (simp_all add: check_duplicates_Inr)
      have ai: "allocated_ids (a # as) = map asset (nfts a) @ allocated_ids as"
        by (simp add: allocated_ids_def)
      from True Inr have step:
        "validate_loop (a # as) ew t ids = validate_loop as ew (t + total_nfts a) ids1"
        by (simp add: Let_def)
      have "validate_loop (a # as) ew t ids = Inr (t', ids') \<longleftrightarrow>
              (\<forall>a \<in> set as. total_nfts a = dict_get ew (wallet a) 0)
              \<and> distinct (allocated_ids as) \<and> set (allocated_ids as) \<inter> ids1 = {}
              \<and> t' = t + total_nfts a + sum_list (map total_nfts as)
              \<and> ids' = ids1 \<union> set (allocated_ids as)"
        by (simp only: step Cons.IH)
      also have "\<dots> \<longleftrightarrow>
              (\<forall>a \<in> set (a # as). total_nfts a = dict_get ew (wallet a) 0)
              \<and> distinct (allocated_ids (a # as)) \<and> set (allocated_ids (a # as)) \<inter> ids = {}
              \<and> t' = t + sum_list (map total_nfts (a # as))
              \<and> ids' = ids \<union> set (allocated_ids (a # as))"
        unfolding ai using True d by auto
      finally show ?thesis .
    qed
  qed
qed


lemma validate_allocation_loop:
  "validate_allocation as ew n \<longleftrightarrow>
     (\<exists>ids'. validate_loop as ew 0 {} = Inr (sum_list (dict_values ew), ids'))
     \<and> sum_list (dict_values ew) \<le> n"
proof (cases "validate_loop as ew 0 {}")
  case (Inl e)
  then show ?thesis by (simp add: validate_allocation_def validate_allocation_report_def)
next
  case (Inr r)
  obtain t' ids' where "r = (t', ids')" by (cases r)
  with Inr show ?thesis
    by (auto simp: validate_allocation_def validate_allocation_report_def Let_def)
qed

text \<open>
  Claim C4. \<^verbatim>\<open>validate_allocation\<close> returns true if and only if all four checks hold: the
  \<^verbatim>\<open>total_nfts\<close> of every allocation equals its recipient's entitlement (looked up with
  \<^verbatim>\<open>get(wallet, 0)\<close>); no asset id appears in more than one place among the items of all
  allocations, which is uniqueness across all allocations; the sum of all \<^verbatim>\<open>total_nfts\<close>
  equals the sum of the entitlements; and that sum does not exceed the total pool size.
\<close>

theorem validate_allocation_iff:
  "validate_allocation allocations eligible_wallets total_pool \<longleftrightarrow>
     (\<forall>a \<in> set allocations. total_nfts a = dict_get eligible_wallets (wallet a) 0)
     \<and> distinct (allocated_ids allocations)
     \<and> sum_list (map total_nfts allocations) = sum_list (dict_values eligible_wallets)
     \<and> sum_list (map total_nfts allocations) \<le> total_pool"
  unfolding validate_allocation_loop validate_loop_Inr by auto

theorem validate_allocation_iff_witness:
  "validate_allocation (allocate_nfts demo_pool [(''B'', 3), (''A'', 2)]) [(''B'', 3), (''A'', 2)] 5
   \<and> distinct (allocated_ids (allocate_nfts demo_pool [(''B'', 3), (''A'', 2)]))
   \<and> \<not> validate_allocation (allocate_nfts demo_pool [(''C'', 2), (''B'', 3), (''A'', 4)])
          [(''C'', 2), (''B'', 3), (''A'', 4)] 5"
proof -
  have d: "distinct (allocated_ids (allocate_nfts demo_pool [(''B'', 3), (''A'', 2)]))"
    unfolding demo_allocation by (simp add: allocated_ids_def demo_pool_def)
  have "validate_allocation (allocate_nfts demo_pool [(''B'', 3), (''A'', 2)]) [(''B'', 3), (''A'', 2)] 5"
    unfolding validate_allocation_iff demo_allocation using d [unfolded demo_allocation]
    by (simp add: dict_get_def dict_values_def)
  moreover
  have "\<not> validate_allocation (allocate_nfts demo_pool [(''C'', 2), (''B'', 3), (''A'', 4)])
          [(''C'', 2), (''B'', 3), (''A'', 4)] 5"
    unfolding validate_allocation_iff demo_shortfall
    by (simp add: dict_get_def dict_values_def)
  ultimately show ?thesis using d by blast
qed

text \<open>
  The set \<^verbatim>\<open>unique_ids\<close> is shared by all allocations: an id that one allocation holds twice
  is reported as a duplicate as well.
\<close>

lemma validate_rejects_repeated_id:
  "validate_allocation_report duplicated_allocation [(''A'', 2)] 2 = Inl (DuplicateAsset ''n1'')"
  by (simp add: validate_allocation_report_def duplicated_allocation_def dict_get_def)

lemma dict_get_absent: "k \<notin> fst ` set d \<Longrightarrow> dict_get d k dflt = dflt"
  by (simp add: dict_get_def map_of_eq_None_iff [THEN iffD2])

text \<open>
  Claim C10. For an allocation whose wallet is not a key of the entitlement table the
  validator's expected count is zero. When the loop reaches such an allocation it returns
  the wrong-count failure if \<^verbatim>\<open>total_nfts\<close> is not zero and goes on to the duplicate check
  if it is zero; so the allocation passes the per-wallet count check if and only if its
  \<^verbatim>\<open>total_nfts\<close> is zero, and a list that the validator accepts holds such an allocation only
  with \<^verbatim>\<open>total_nfts\<close> zero.
\<close>

theorem validate_absent_wallet:
  assumes "wallet a \<notin> fst ` set eligible_wallets"
  shows "dict_get eligible_wallets (wallet a) 0 = 0
       \<and> (total_nfts a \<noteq> 0 \<longrightarrow>
            validate_loop (a # rest) eligible_wallets t ids
              = Inl (WrongCount (wallet a) 0 (total_nfts a)))
       \<and> (total_nfts a = 0 \<longrightarrow>
            validate_loop (a # rest) eligible_wallets t ids
              = (case check_duplicates (nfts a) ids of
                   Inl failure \<Rightarrow> Inl failure
                 | Inr ids' \<Rightarrow> validate_loop rest eligible_wallets t ids'))
       \<and> (validate_loop [a] eligible_wallets t ids = Inl (WrongCount (wallet a) 0 (total_nfts a))
            \<longleftrightarrow> total_nfts a \<noteq> 0)
       \<and> (a \<in> set allocations \<and> validate_allocation allocations eligible_wallets total_pool
            \<longrightarrow> total_nfts a = 0)"
proof -
  have g: "dict_get eligible_wallets (wallet a) 0 = 0"
    using assms by (rule dict_get_absent)
  have 2: "total_nfts a \<noteq> 0 \<longrightarrow>
            validate_loop (a # rest) eligible_wallets t ids
              = Inl (WrongCount (wallet a) 0 (total_nfts a))"
    by (simp add: g)
  have 3: "total_nfts a = 0 \<longrightarrow>
            validate_loop (a # rest) eligible_wallets t ids
              = (case check_duplicates (nfts a) ids of
                   Inl failure \<Rightarrow> Inl failure
                 | Inr ids' \<Rightarrow> validate_loop rest eligible_wallets t ids')"
    by (auto simp: g split: sum.splits)
  have 4: "validate_loop [a] eligible_wallets t ids = Inl (WrongCount (wallet a) 0 (total_nfts a))
            \<longleftrightarrow> total_nfts a \<noteq> 0"
  proof (cases "total_nfts a = 0")
    case False
    then show ?thesis by (simp add: g)
  next
    case True
    have "check_duplicates ns ids0 \<noteq> Inl (WrongCount w e n)" for ns ids0 w e n
      by (induction ns arbitrary: ids0) auto
    with True show ?thesis by (auto simp: g split: sum.splits)
  qed
  have 5: "a \<in> set allocations \<and> validate_allocation allocations eligible_wallets total_pool
            \<longrightarrow> total_nfts a = 0"
    unfolding validate_allocation_loop validate_loop_Inr using g by auto
  show ?thesis by (intro conjI g 2 3 4 5)
qed

theorem validate_absent_wallet_witness:
  "wallet (stray_allocation 1) \<notin> fst ` set [(''A'', 2::int)]
   \<and> dict_get [(''A'', 2::int)] (wallet (stray_allocation 1)) 0 = 0
   \<and> validate_loop [stray_allocation 1] [(''A'', 2)] 0 {} = Inl (WrongCount ''Z'' 0 1)
   \<and> validate_loop [stray_allocation 0] [(''A'', 2)] 0 {} = Inr (0, {})"
proof -
  have h: "wallet (stray_allocation n) \<notin> fst ` set [(''A'', 2::int)]" for n
    by (simp add: stray_allocation_def)
  note t1 = validate_absent_wallet [OF h [of 1], of "[]" 0 "{}"]
  note t0 = validate_absent_wallet [OF h [of 0], of "[]" 0 "{}"]
  from t1 have "validate_loop [stray_allocation 1] [(''A'', 2)] 0 {} = Inl (WrongCount ''Z'' 0 1)"
    by (simp add: stray_allocation_def)
  moreover from t0 have "validate_loop [stray_allocation 0] [(''A'', 2)] 0 {} = Inr (0, {})"
    by (simp add: stray_allocation_def)
  moreover from t1 have "dict_get [(''A'', 2::int)] (wallet (stray_allocation 1)) 0 = 0"
    by blast
  ultimately show ?thesis using h [of 1] by blast
qed

section \<open>Properties of the pool builder\<close>


subsection \<open>The shuffle is a permutation\<close>

lemma shuffle_loop_mset:
  "rng_ok rb \<Longrightarrow> i < length x \<Longrightarrow> mset (fst (shuffle_loop rb i x g)) = mset x"
proof (induction i arbitrary: x g)
  case 0
  then show ?case by simp
next
  case (Suc i)
  obtain j g' where r: "rb (Suc i + 1) g = (j, g')" by (cases "rb (Suc i + 1) g")
  from Suc.prems(1) have "fst (rb (Suc i + 1) g) < Suc i + 1"
    unfolding rng_ok_def by simp
  with r Suc.prems(2) have j: "j < length x" by simp
  let ?y = "x[Suc i := x ! j, j := x ! Suc i]"
  from j Suc.prems(2) have "mset ?y = mset x" by (simp add: mset_swap)
  moreover from Suc.prems have "mset (fst (shuffle_loop rb i ?y g')) = mset ?y"
    by (intro Suc.IH) simp_all
  ultimately show ?case using r by simp
qed

lemma shuffle_mset: "rng_ok rb \<Longrightarrow> mset (fst (shuffle rb x g)) = mset x"
  by (cases x) (simp_all add: shuffle_def shuffle_loop_mset)

lemma shuffle_length: "rng_ok rb \<Longrightarrow> length (fst (shuffle rb x g)) = length x"
proof -
  assume "rng_ok rb"
  then have "size (mset (fst (shuffle rb x g))) = size (mset x)"
    by (simp only: shuffle_mset)
  then show ?thesis by simp
qed

subsection \<open>The mode test\<close>

lemma pre_assigned_filter:
  "length [r. (_, r) \<leftarrow> xs, r \<noteq> None] = length (filter (\<lambda>x. snd x \<noteq> None) xs)"
  by (induction xs) auto

lemma pre_assigned_iff: "pre_assigned xs \<longleftrightarrow> (\<forall>x \<in> set xs. snd x \<noteq> None)"
proof -
  have "pre_assigned xs \<longleftrightarrow> length (filter (\<lambda>x. snd x \<noteq> None) xs) = length xs"
    unfolding pre_assigned_def pre_assigned_filter ..
  also have "\<dots> \<longleftrightarrow> length (filter (\<lambda>x. \<not> snd x \<noteq> None) xs) = 0"
    using sum_length_filter_compl [of "\<lambda>x. snd x \<noteq> None" xs] by linarith
  also have "\<dots> \<longleftrightarrow> (\<forall>x \<in> set xs. snd x \<noteq> None)"
    by (simp add: filter_empty_conv)
  finally show ?thesis .
qed

subsection \<open>The counting loop\<close>

lemma update_new_key: "k \<notin> fst ` set d \<Longrightarrow> AList.update k v d = d @ [(k, v)]"
  by (induction d) auto

lemma floors_keys [simp]: "map fst (floors cnt srt) = map fst srt"
  by (induction srt) (auto simp: floors_def)

lemma floors_cong:
  "\<forall>e \<in> set srt. cnt (snd e) = cnt' (snd e) \<Longrightarrow> floors cnt srt = floors cnt' srt"
  by (induction srt) (auto simp: floors_def)

lemma count_rarities_eq:
  assumes "srt \<noteq> []" and "distinct (map fst srt)" and "fst ` set srt \<inter> fst ` set rc = {}"
    and "i + length srt = n"
    and "\<forall>e \<in> set (butlast srt). pc m (snd e) = Inr (cnt (snd e))"
  shows "count_rarities pc m n i srt rem rc =
           Inr (rc @ floors cnt (butlast srt)
                   @ [(fst (last srt), rem - sum_list (map snd (floors cnt (butlast srt))))])"
  using assms
proof (induction srt arbitrary: i rem rc)
  case Nil
  then show ?case by simp
next
  case (Cons e srt)
  obtain r p where e: "e = (r, p)" by (cases e)
  from Cons.prems e have new: "r \<notin> fst ` set rc" by auto
  show ?case
  proof (cases "srt = []")
    case True
    with Cons.prems e new show ?thesis
      by (simp add: update_new_key floors_def)
  next
    case False
    with Cons.prems have i: "int i \<noteq> int n - 1" by auto
    from False Cons.prems(5) e have c: "pc m p = Inr (cnt p)" by simp
    have "count_rarities pc m n (Suc i) srt (rem - cnt p) (rc @ [(r, cnt p)]) =
            Inr ((rc @ [(r, cnt p)]) @ floors cnt (butlast srt)
              @ [(fst (last srt), (rem - cnt p) - sum_list (map snd (floors cnt (butlast srt))))])"
      using False Cons.prems e by (intro Cons.IH) auto
    with False i e new c show ?thesis
      by (simp add: update_new_key floors_def)
  qed
qed

lemma count_rarities_raises:
  assumes "i + length srt = n" and "e \<in> set (butlast srt)" and "pc m (snd e) = Inl x"
  shows "\<exists>x'. count_rarities pc m n i srt rem rc = Inl x'"
  using assms(1,2)
proof (induction srt arbitrary: i rem rc)
  case Nil
  then show ?case by simp
next
  case (Cons a srt)
  obtain r p where a: "a = (r, p)" by (cases a)
  from Cons.prems(2) have ne: "srt \<noteq> []" by (cases srt) auto
  with Cons.prems(1) have i: "int i \<noteq> int n - 1" by auto
  show ?case
  proof (cases "pc m p")
    case (Inl y)
    with i a show ?thesis by simp
  next
    case (Inr c)
    with assms(3) a have "e \<noteq> a" by auto
    with Cons.prems(2) ne have "e \<in> set (butlast srt)" by simp
    moreover from Cons.prems(1) have "Suc i + length srt = n" by simp
    ultimately have "\<exists>x'. count_rarities pc m n (Suc i) srt (rem - c) (AList.update r c rc) = Inl x'"
      by (intro Cons.IH)
    with i a Inr show ?thesis by simp
  qed
qed

lemma count_rarities_returns:
  assumes "i + length srt = n" and "counts_defined pc m srt"
  shows "\<exists>rc'. count_rarities pc m n i srt rem rc = Inr rc'"
  using assms
proof (induction srt arbitrary: i rem rc)
  case Nil
  then show ?case by simp
next
  case (Cons a srt)
  obtain r p where a: "a = (r, p)" by (cases a)
  show ?case
  proof (cases "srt = []")
    case True
    with Cons.prems(1) a show ?thesis by simp
  next
    case False
    with Cons.prems(1) have i: "int i \<noteq> int n - 1" by auto
    from False Cons.prems(2) a obtain c where c: "pc m p = Inr c"
      by (auto simp: counts_defined_def)
    from False Cons.prems(2) have "counts_defined pc m srt"
      by (simp add: counts_defined_def)
    moreover from Cons.prems(1) have "Suc i + length srt = n" by simp
    ultimately have "\<exists>rc'. count_rarities pc m n (Suc i) srt (rem - c) (AList.update r c rc) = Inr rc'"
      by (intro Cons.IH)
    with i a c show ?thesis by simp
  qed
qed

lemma counts_defined_the_count:
  "counts_defined pc m srt \<Longrightarrow> \<forall>e \<in> set (butlast srt). pc m (snd e) = Inr (the_count pc m (snd e))"
  by (auto simp: counts_defined_def the_count_def)

lemma counts_undefined:
  "\<not> counts_defined pc m srt \<Longrightarrow> \<exists>e \<in> set (butlast srt). \<exists>x. pc m (snd e) = Inl x"
proof -
  assume "\<not> counts_defined pc m srt"
  then obtain e where e: "e \<in> set (butlast srt)" "\<forall>c. pc m (snd e) \<noteq> Inr c"
    by (auto simp: counts_defined_def)
  then obtain x where "pc m (snd e) = Inl x" by (cases "pc m (snd e)") auto
  with e(1) show ?thesis by blast
qed

lemma counts_of_keys: "srt \<noteq> [] \<Longrightarrow> map fst (counts_of cnt n srt) = map fst srt"
proof -
  assume "srt \<noteq> []"
  then have "map fst srt = map fst (butlast srt) @ [fst (last srt)]"
    by (metis append_butlast_last_id list.simps(8,9) map_append)
  then show ?thesis by (simp add: counts_of_def)
qed

lemma counts_of_sum: "sum_list (map snd (counts_of cnt n srt)) = int n"
  by (simp add: counts_of_def)

subsection \<open>The assignment loops\<close>

lemma assign_rarity_eq:
  "idx \<le> length addrs \<Longrightarrow>
     assign_rarity k addrs r ps idx =
       (ps @ map (\<lambda>a. (a, r)) (take k (drop idx addrs)), min (idx + k) (length addrs))"
proof (induction k arbitrary: ps idx)
  case 0
  then show ?case by simp
next
  case (Suc k)
  show ?case
  proof (cases "idx < length addrs")
    case True
    then have "drop idx addrs = addrs ! idx # drop (Suc idx) addrs"
      by (simp add: Cons_nth_drop_Suc)
    with True Suc.IH [of "Suc idx"] show ?thesis by simp
  next
    case False
    with Suc.prems have "idx = length addrs" by simp
    with Suc.IH [of idx ps] show ?thesis by simp
  qed
qed

lemma assign_rarities_eq:
  "idx \<le> length addrs \<Longrightarrow>
     assign_rarities cs addrs ps idx = ps @ label_slices cs (drop idx addrs)"
proof (induction cs arbitrary: ps idx)
  case Nil
  then show ?case by simp
next
  case (Cons e cs)
  obtain r c where e: "e = (r, c)" by (cases e)
  let ?idx = "min (idx + nat c) (length addrs)"
  have d: "drop ?idx addrs = drop (nat c) (drop idx addrs)"
    by (cases "idx + nat c \<le> length addrs") (simp_all add: add.commute)
  from Cons.prems have "assign_rarities (e # cs) addrs ps idx
      = assign_rarities cs addrs (ps @ map (\<lambda>a. (a, r)) (take (nat c) (drop idx addrs))) ?idx"
    by (simp add: e assign_rarity_eq)
  also have "\<dots> = (ps @ map (\<lambda>a. (a, r)) (take (nat c) (drop idx addrs)))
                     @ label_slices cs (drop ?idx addrs)"
    by (rule Cons.IH) simp
  finally show ?case by (simp add: e d)
qed

lemma label_slices_fst: "map fst (label_slices cs addrs) = take (draws cs) addrs"
proof (induction cs arbitrary: addrs)
  case Nil
  then show ?case by simp
next
  case (Cons e cs)
  obtain r c where e: "e = (r, c)" by (cases e)
  have "take (nat c + draws cs) addrs = take (nat c) addrs @ take (draws cs) (drop (nat c) addrs)"
    by (simp add: take_add add.commute)
  with Cons e show ?case by (simp add: o_def)
qed

lemma label_slices_snd: "set (map snd (label_slices cs addrs)) \<subseteq> fst ` set cs"
proof (induction cs arbitrary: addrs)
  case Nil
  then show ?case by simp
next
  case (Cons e cs)
  obtain r c where e: "e = (r, c)" by (cases e)
  have "set (map snd (label_slices cs (drop (nat c) addrs))) \<subseteq> fst ` set cs"
    by (rule Cons.IH)
  then show ?case unfolding e by (auto simp: image_iff)
qed


subsection \<open>Sorted dictionaries\<close>

lemma sorted_pairs_of_keys:
  "sorted_wrt (<) (map fst xs) \<Longrightarrow> sorted (xs :: ('a::linorder \<times> 'b::linorder) list)"
proof -
  assume "sorted_wrt (<) (map fst xs)"
  then have "sorted_wrt (\<lambda>p q. fst p < fst q) xs" by (simp add: sorted_wrt_map)
  then show ?thesis
    by (rule sorted_wrt_mono_rel [rotated]) (auto simp: less_eq_prod_def)
qed

lemma sort_counts_of:
  assumes "dict_ok pct" and "pct \<noteq> []"
  shows "sort (counts_of cnt n (sort pct)) = counts_of cnt n (sort pct)"
proof -
  from assms(2) have ne: "sort pct \<noteq> []" by (metis length_sort length_0_conv)
  have "sorted_wrt (<) (map fst (sort pct))" using assms(1) by (rule strict_sorted_keys_sort)
  then have "sorted_wrt (<) (map fst (counts_of cnt n (sort pct)))"
    by (simp add: counts_of_keys [OF ne])
  then show ?thesis by (intro sorted_sort_id sorted_pairs_of_keys)
qed

text \<open>The pairs that percentage mode hands to the shuffle.\<close>

lemma generate_nft_pool_percentage:
  assumes "dict_ok pct" and "pct \<noteq> []" and "\<not> pre_assigned nft_assets"
    and "\<forall>e \<in> set (butlast (sort pct)). pc (length nft_assets) (snd e) = Inr (cnt (snd e))"
  shows "generate_nft_pool pc rb nft_assets (Some pct) g =
           (case shuffle rb
                   (label_slices (counts_of cnt (length nft_assets) (sort pct)) (map fst nft_assets)) g of
              (shuffled, g') \<Rightarrow>
                Inr (map (\<lambda>(addr, rar). \<lparr>asset = addr, rarity = Some rar\<rparr>) shuffled, g'))"
proof -
  let ?n = "length nft_assets"
  from assms(2) have ne: "sort pct \<noteq> []" by (metis length_sort length_0_conv)
  have d: "distinct (map fst (sort pct))"
    using dict_ok_sort [OF assms(1)] by (simp add: dict_ok_def)
  have "count_rarities pc ?n (length (sort pct)) 0 (sort pct) (int ?n) []
          = Inr ([] @ floors cnt (butlast (sort pct))
                 @ [(fst (last (sort pct)),
                     int ?n - sum_list (map snd (floors cnt (butlast (sort pct)))))])"
    by (rule count_rarities_eq [where pc = pc and cnt = cnt and m = ?n, OF ne d _ _ assms(4)])
      simp_all
  then have "count_rarities pc ?n (length (sort pct)) 0 (sort pct) (int ?n) []
               = Inr (counts_of cnt ?n (sort pct))"
    by (simp add: counts_of_def)
  moreover have "assign_rarities cs (map fst nft_assets) [] 0 = label_slices cs (map fst nft_assets)" for cs
    by (simp add: assign_rarities_eq)
  ultimately show ?thesis
    using assms(2,3) by (simp add: generate_nft_pool_def Let_def sort_counts_of [OF assms(1,2)])
qed

lemma generate_nft_pool_raises:
  assumes "pct \<noteq> []" and "\<not> pre_assigned nft_assets"
    and "\<not> counts_defined pc (length nft_assets) (sort pct)"
  shows "\<exists>x. generate_nft_pool pc rb nft_assets (Some pct) g = Inl (Raised x)"
proof -
  from counts_undefined [OF assms(3)] obtain e x
    where "e \<in> set (butlast (sort pct))" "pc (length nft_assets) (snd e) = Inl x" by blast
  then have "\<exists>x'. count_rarities pc (length nft_assets) (length (sort pct)) 0 (sort pct)
                     (int (length nft_assets)) [] = Inl x'"
    by (intro count_rarities_raises) simp_all
  then obtain x' where "count_rarities pc (length nft_assets) (length (sort pct)) 0 (sort pct)
                     (int (length nft_assets)) [] = Inl x'" ..
  with assms(1,2) show ?thesis by (simp add: generate_nft_pool_def Let_def)
qed

lemma generate_nft_pool_returns:
  assumes "pct \<noteq> []" and "\<not> pre_assigned nft_assets"
    and "counts_defined pc (length nft_assets) (sort pct)"
  shows "\<exists>pool g'. generate_nft_pool pc rb nft_assets (Some pct) g = Inr (pool, g')"
proof -
  have "\<exists>rc'. count_rarities pc (length nft_assets) (length (sort pct)) 0 (sort pct)
                     (int (length nft_assets)) [] = Inr rc'"
    using assms(3) by (intro count_rarities_returns) simp_all
  then obtain rc' where "count_rarities pc (length nft_assets) (length (sort pct)) 0 (sort pct)
                     (int (length nft_assets)) [] = Inr rc'" ..
  with assms(1,2) show ?thesis
    by (simp add: generate_nft_pool_def Let_def split: prod.splits)
qed

subsection \<open>The pool\<close>

lemma wrap_assets [simp]:
  "map asset (map (\<lambda>(addr, rar). \<lparr>asset = addr, rarity = rar\<rparr>) xs) = map fst xs"
  "map asset (map (\<lambda>(addr, rar). \<lparr>asset = addr, rarity = Some rar\<rparr>) ys) = map fst ys"
  by (simp_all add: case_prod_beta o_def)

lemma counts_of_draws: "n \<le> draws (counts_of cnt n srt)"
  using draws_ge [of "counts_of cnt n srt"] by (simp add: counts_of_sum)

lemma percentage_pairs_fst:
  "map fst (label_slices (counts_of cnt (length nft_assets) srt) (map fst nft_assets)) = map fst nft_assets"
  using counts_of_draws [of "length nft_assets" cnt srt] by (simp add: label_slices_fst)

text \<open>
  Claim C7. For every input item sequence with distinct ids (and, in percentage mode, a
  supplied percentage table), \<^verbatim>\<open>generate_nft_pool\<close> returns a pool whose length is the number
  of input items and which contains each input id exactly once. In pre-assigned mode the
  pool is a permutation of the input (id, rarity) pairs, so that every item keeps its input
  rarity. The random source is assumed to keep the contract of \<^verbatim>\<open>_randbelow\<close>, and in
  percentage mode the arithmetic of the counts is assumed not to raise.
\<close>

theorem generate_nft_pool_permutation:
  assumes rng: "rng_ok randbelow"
    and ids: "distinct (map fst nft_assets)"
    and tbl: "pre_assigned nft_assets
              \<or> (\<exists>pct. rarity_percentages = Some pct \<and> pct \<noteq> [] \<and> dict_ok pct
                    \<and> counts_defined pct_count (length nft_assets) (sort pct))"
  shows "\<exists>pool g'. generate_nft_pool pct_count randbelow nft_assets rarity_percentages g = Inr (pool, g')
       \<and> length pool = length nft_assets
       \<and> mset (map asset pool) = mset (map fst nft_assets)
       \<and> distinct (map asset pool)
       \<and> (pre_assigned nft_assets \<longrightarrow>
            mset pool = mset (map (\<lambda>(addr, rar). \<lparr>asset = addr, rarity = rar\<rparr>) nft_assets)
            \<and> (\<forall>nft \<in> set pool. rarity nft \<noteq> None))"
proof -
  have fin: "length pool = length nft_assets \<and> distinct (map asset pool)"
    if "mset (map asset pool) = mset (map fst nft_assets)" for pool
  proof -
    from that have "size (mset (map asset pool)) = size (mset (map fst nft_assets))" by simp
    moreover from ids have "distinct (map asset pool)"
      unfolding mset_eq_imp_distinct_iff [OF that] .
    ultimately show ?thesis by simp
  qed
  show ?thesis
  proof (cases "pre_assigned nft_assets")
    case True
    let ?nfts = "map (\<lambda>(addr, rar). \<lparr>asset = addr, rarity = rar\<rparr>) nft_assets"
    obtain pool g' where sh: "shuffle randbelow ?nfts g = (pool, g')"
      by (cases "shuffle randbelow ?nfts g")
    with True
    have gen: "generate_nft_pool pct_count randbelow nft_assets rarity_percentages g = Inr (pool, g')"
      by (simp add: generate_nft_pool_def)
    from shuffle_mset [OF rng, of ?nfts g] sh have m: "mset pool = mset ?nfts" by simp
    have "mset (map asset pool) = mset (map asset ?nfts)" by (simp only: mset_map m)
    then have a: "mset (map asset pool) = mset (map fst nft_assets)"
      by (simp only: wrap_assets)
    from m have "set pool = set ?nfts" by (rule mset_eq_setD)
    moreover from True have "\<forall>nft \<in> set ?nfts. rarity nft \<noteq> None"
      by (auto simp: pre_assigned_iff)
    ultimately have "\<forall>nft \<in> set pool. rarity nft \<noteq> None" by simp
    with gen a fin [OF a] m show ?thesis by blast
  next
    case False
    with tbl obtain pct where pct: "rarity_percentages = Some pct" "pct \<noteq> []" "dict_ok pct"
      and def: "counts_defined pct_count (length nft_assets) (sort pct)"
      by blast
    let ?cnt = "the_count pct_count (length nft_assets)"
    let ?pairs = "label_slices (counts_of ?cnt (length nft_assets) (sort pct)) (map fst nft_assets)"
    obtain sh g' where sh: "shuffle randbelow ?pairs g = (sh, g')"
      by (cases "shuffle randbelow ?pairs g")
    let ?pool = "map (\<lambda>(addr, rar). \<lparr>asset = addr, rarity = Some rar\<rparr>) sh"
    from generate_nft_pool_percentage [where pc = pct_count and cnt = ?cnt and rb = randbelow and g = g,
        OF pct(3) pct(2) False counts_defined_the_count [OF def]] sh pct(1)
    have gen: "generate_nft_pool pct_count randbelow nft_assets rarity_percentages g = Inr (?pool, g')"
      by simp
    from shuffle_mset [OF rng, of ?pairs g] sh have "mset sh = mset ?pairs" by simp
    then have "mset (map fst sh) = mset (map fst ?pairs)" by (simp only: mset_map)
    then have a: "mset (map asset ?pool) = mset (map fst nft_assets)"
      by (simp only: wrap_assets percentage_pairs_fst)
    from gen a fin [OF a] False show ?thesis by blast
  qed
qed

lemma percentage_pool:
  assumes rng: "rng_ok rb" and tbl: "dict_ok pct" "pct \<noteq> []" and mode: "\<not> pre_assigned nft_assets"
    and cnt: "\<forall>e \<in> set (butlast (sort pct)). pc (length nft_assets) (snd e) = Inr (cnt (snd e))"
  shows "\<exists>sh g'. generate_nft_pool pc rb nft_assets (Some pct) g
                     = Inr (map (\<lambda>(addr, rar). \<lparr>asset = addr, rarity = Some rar\<rparr>) sh, g')
           \<and> mset sh = mset (label_slices (counts_of cnt (length nft_assets) (sort pct))
                                (map fst nft_assets))"
proof -
  let ?pairs = "label_slices (counts_of cnt (length nft_assets) (sort pct)) (map fst nft_assets)"
  obtain sh g' where sh: "shuffle rb ?pairs g = (sh, g')" by (cases "shuffle rb ?pairs g")
  from generate_nft_pool_percentage [where pc = pc and cnt = cnt and rb = rb and g = g,
      OF tbl mode cnt] sh
  have "generate_nft_pool pc rb nft_assets (Some pct) g
          = Inr (map (\<lambda>(addr, rar). \<lparr>asset = addr, rarity = Some rar\<rparr>) sh, g')"
    by simp
  moreover from shuffle_mset [OF rng, of ?pairs g] sh have "mset sh = mset ?pairs" by simp
  ultimately show ?thesis by blast
qed

lemma percentage_pairs_snd:
  assumes "pct \<noteq> []"
  shows "set (map snd (label_slices (counts_of cnt n (sort pct)) addrs)) \<subseteq> fst ` set pct"
proof -
  from assms have ne: "sort pct \<noteq> []" by (metis length_sort length_0_conv)
  have "set (map snd (label_slices (counts_of cnt n (sort pct)) addrs))
          \<subseteq> fst ` set (counts_of cnt n (sort pct))"
    by (rule label_slices_snd)
  also have "\<dots> = set (map fst (counts_of cnt n (sort pct)))" by simp
  also have "\<dots> = set (map fst (sort pct))" by (simp only: counts_of_keys [OF ne])
  also have "\<dots> = fst ` set pct" by simp
  finally show ?thesis .
qed

subsection \<open>Runs on the example inputs\<close>

lemma stub_rng_ok: "rng_ok stub_randbelow"
  unfolding rng_ok_def
proof (intro allI impI)
  fix n :: nat and g :: "nat list"
  assume "0 < n"
  then show "fst (stub_randbelow n g) < n" by (cases g) simp_all
qed



lemma sort_half_table: "sort half_table = [(''Common'', 50), (''Rare'', 50)]"
  by (simp add: half_table_def)



lemma run_mixed:
  "generate_nft_pool float_pct_count stub_randbelow mixed_assets (Some half_table) [0] =
     Inr ([\<lparr>asset = ''n2'', rarity = Some ''Rare''\<rparr>, \<lparr>asset = ''n1'', rarity = Some ''Common''\<rparr>], [])"
  by code_simp


lemma run_labelled:
  "generate_nft_pool float_pct_count stub_randbelow labelled_assets None [1, 0] =
     Inr ([\<lparr>asset = ''n3'', rarity = Some ''Common''\<rparr>, \<lparr>asset = ''n1'', rarity = Some ''Rare''\<rparr>,
           \<lparr>asset = ''n2'', rarity = Some ''Common''\<rparr>], [])"
  by code_simp


theorem generate_nft_pool_permutation_witness:
  "rng_ok stub_randbelow \<and> distinct (map fst labelled_assets) \<and> pre_assigned labelled_assets
   \<and> generate_nft_pool float_pct_count stub_randbelow labelled_assets None [1, 0] =
       Inr ([\<lparr>asset = ''n3'', rarity = Some ''Common''\<rparr>, \<lparr>asset = ''n1'', rarity = Some ''Rare''\<rparr>,
             \<lparr>asset = ''n2'', rarity = Some ''Common''\<rparr>], [])
   \<and> mset (map asset [\<lparr>asset = ''n3'', rarity = Some ''Common''\<rparr>, \<lparr>asset = ''n1'', rarity = Some ''Rare''\<rparr>,
             \<lparr>asset = ''n2'', rarity = Some ''Common''\<rparr>]) = mset (map fst labelled_assets)"
proof -
  have h1: "distinct (map fst labelled_assets)" by (simp add: labelled_assets_def)
  have h2: "pre_assigned labelled_assets" by (simp add: pre_assigned_def labelled_assets_def)
  then have h3: "pre_assigned labelled_assets
      \<or> (\<exists>pct. (None :: (string, rat) dict option) = Some pct \<and> pct \<noteq> [] \<and> dict_ok pct
            \<and> counts_defined float_pct_count (length labelled_assets) (sort pct))" ..
  from generate_nft_pool_permutation [OF stub_rng_ok h1 h3, of "[1, 0]"]
  have "mset (map asset [\<lparr>asset = ''n3'', rarity = Some ''Common''\<rparr>, \<lparr>asset = ''n1'', rarity = Some ''Rare''\<rparr>,
             \<lparr>asset = ''n2'', rarity = Some ''Common''\<rparr>]) = mset (map fst labelled_assets)"
    unfolding run_labelled by blast
  with stub_rng_ok h1 h2 run_labelled show ?thesis by blast
qed

subsection \<open>Mixed labelling\<close>

text \<open>
  Claim C2, as the code has it. An input in which some but not all items carry a rarity
  label is not in pre-assigned mode, and \<^verbatim>\<open>generate_nft_pool\<close> treats it as percentage mode.
  It exits with the configuration error exactly when no percentage table, or an empty
  one, is supplied. With a non-empty table it returns a pool, unless the arithmetic of a
  count raises, and then that exception is what happens. The pool holds every input id
  once, and every item carries a rarity that is a key of the table: the rarities are
  assigned from the table and the labels of the input are not used.
\<close>

theorem generate_nft_pool_mixed:
  assumes "(a1, Some r1) \<in> set nft_assets" and "(a2, None) \<in> set nft_assets"
  shows "\<not> pre_assigned nft_assets
       \<and> (generate_nft_pool pct_count randbelow nft_assets rarity_percentages g = Inl (SystemExit 1)
            \<longleftrightarrow> rarity_percentages = None \<or> rarity_percentages = Some [])
       \<and> (\<forall>pct. rarity_percentages = Some pct \<and> pct \<noteq> [] \<longrightarrow>
            ((\<exists>pool g'. generate_nft_pool pct_count randbelow nft_assets rarity_percentages g
                           = Inr (pool, g'))
               \<longleftrightarrow> counts_defined pct_count (length nft_assets) (sort pct))
            \<and> ((\<exists>x. generate_nft_pool pct_count randbelow nft_assets rarity_percentages g
                           = Inl (Raised x))
               \<longleftrightarrow> \<not> counts_defined pct_count (length nft_assets) (sort pct)))
       \<and> (\<forall>pct. rarity_percentages = Some pct \<and> pct \<noteq> [] \<and> dict_ok pct \<and> rng_ok randbelow
                \<and> counts_defined pct_count (length nft_assets) (sort pct) \<longrightarrow>
            (\<exists>pool g'. generate_nft_pool pct_count randbelow nft_assets rarity_percentages g
                          = Inr (pool, g')
               \<and> length pool = length nft_assets
               \<and> mset (map asset pool) = mset (map fst nft_assets)
               \<and> (\<forall>nft \<in> set pool. \<exists>r \<in> fst ` set pct. rarity nft = Some r)))"
proof -
  define gen where "gen = generate_nft_pool pct_count randbelow nft_assets rarity_percentages g"
  let ?n = "length nft_assets"
  from assms(2) have m: "\<not> pre_assigned nft_assets"
    unfolding pre_assigned_iff by (intro notI) (auto dest: bspec)
  have some: "((\<exists>pool g'. gen = Inr (pool, g')) \<longleftrightarrow> counts_defined pct_count ?n (sort pct))
      \<and> ((\<exists>x. gen = Inl (Raised x)) \<longleftrightarrow> \<not> counts_defined pct_count ?n (sort pct))
      \<and> gen \<noteq> Inl (SystemExit 1)"
    if pct: "rarity_percentages = Some pct" "pct \<noteq> []" for pct
  proof (cases "counts_defined pct_count ?n (sort pct)")
    case True
    from generate_nft_pool_returns [OF pct(2) m True, of randbelow g]
    have "\<exists>pool g'. gen = Inr (pool, g')" unfolding gen_def pct(1) .
    then obtain pool g' where "gen = Inr (pool, g')" by blast
    with True show ?thesis by simp
  next
    case False
    from generate_nft_pool_raises [OF pct(2) m False, of randbelow g]
    have "\<exists>x. gen = Inl (Raised x)" unfolding gen_def pct(1) .
    then obtain x where "gen = Inl (Raised x)" ..
    with False show ?thesis by simp
  qed
  have 2: "gen = Inl (SystemExit 1) \<longleftrightarrow> rarity_percentages = None \<or> rarity_percentages = Some []"
  proof (cases rarity_percentages)
    case None
    with m show ?thesis by (simp add: gen_def generate_nft_pool_def)
  next
    case (Some pct)
    show ?thesis
    proof (cases "pct = []")
      case True
      with m Some show ?thesis by (simp add: gen_def generate_nft_pool_def)
    next
      case False
      with some [OF Some False] Some show ?thesis by simp
    qed
  qed
  have 3: "\<forall>pct. rarity_percentages = Some pct \<and> pct \<noteq> [] \<longrightarrow>
            ((\<exists>pool g'. gen = Inr (pool, g')) \<longleftrightarrow> counts_defined pct_count ?n (sort pct))
            \<and> ((\<exists>x. gen = Inl (Raised x)) \<longleftrightarrow> \<not> counts_defined pct_count ?n (sort pct))"
  proof (intro allI impI)
    fix pct assume "rarity_percentages = Some pct \<and> pct \<noteq> []"
    then have "rarity_percentages = Some pct" "pct \<noteq> []" by simp_all
    from some [OF this]
    show "((\<exists>pool g'. gen = Inr (pool, g')) \<longleftrightarrow> counts_defined pct_count ?n (sort pct))
            \<and> ((\<exists>x. gen = Inl (Raised x)) \<longleftrightarrow> \<not> counts_defined pct_count ?n (sort pct))"
      by (intro conjI) (erule conjunct1, erule conjunct2 [THEN conjunct1])
  qed
  have 4: "\<forall>pct. rarity_percentages = Some pct \<and> pct \<noteq> [] \<and> dict_ok pct \<and> rng_ok randbelow
                \<and> counts_defined pct_count ?n (sort pct) \<longrightarrow>
            (\<exists>pool g'. gen = Inr (pool, g') \<and> length pool = ?n
               \<and> mset (map asset pool) = mset (map fst nft_assets)
               \<and> (\<forall>nft \<in> set pool. \<exists>r \<in> fst ` set pct. rarity nft = Some r))"
  proof (intro allI impI)
    fix pct
    assume a: "rarity_percentages = Some pct \<and> pct \<noteq> [] \<and> dict_ok pct \<and> rng_ok randbelow
                \<and> counts_defined pct_count ?n (sort pct)"
    let ?cnt = "the_count pct_count ?n"
    let ?pairs = "label_slices (counts_of ?cnt ?n (sort pct)) (map fst nft_assets)"
    from a have rp: "rarity_percentages = Some pct" and ne: "pct \<noteq> []" and ok: "dict_ok pct"
      and rng: "rng_ok randbelow" and def: "counts_defined pct_count ?n (sort pct)"
      by simp_all
    from percentage_pool [where pc = pct_count and cnt = ?cnt and rb = randbelow and g = g,
        OF rng ok ne m counts_defined_the_count [OF def]]
    obtain sh g' where gen': "generate_nft_pool pct_count randbelow nft_assets (Some pct) g
          = Inr (map (\<lambda>(addr, rar). \<lparr>asset = addr, rarity = Some rar\<rparr>) sh, g')"
      and ms: "mset sh = mset ?pairs" by blast
    define pool where "pool = map (\<lambda>(addr, rar). \<lparr>asset = addr, rarity = Some rar\<rparr>) sh"
    from gen' have g: "gen = Inr (pool, g')" unfolding gen_def rp pool_def .
    from ms have "mset (map fst sh) = mset (map fst ?pairs)" by (simp only: mset_map)
    then have ids: "mset (map asset pool) = mset (map fst nft_assets)"
      unfolding pool_def by (simp only: wrap_assets percentage_pairs_fst)
    then have "size (mset (map asset pool)) = size (mset (map fst nft_assets))" by (simp only:)
    then have len: "length pool = ?n" by simp
    from ms have "set sh = set ?pairs" by (rule mset_eq_setD)
    then have sub: "snd ` set sh \<subseteq> fst ` set pct"
      using percentage_pairs_snd [OF ne, of ?cnt ?n "map fst nft_assets"] by simp
    have lab: "\<forall>nft \<in> set pool. \<exists>r \<in> fst ` set pct. rarity nft = Some r"
    proof
      fix nft assume "nft \<in> set pool"
      then obtain e where e: "e \<in> set sh" "nft = \<lparr>asset = fst e, rarity = Some (snd e)\<rparr>"
        unfolding pool_def by (auto simp: case_prod_beta)
      from e(1) sub have "snd e \<in> fst ` set pct" by blast
      with e(2) show "\<exists>r \<in> fst ` set pct. rarity nft = Some r" by simp
    qed
    from g len ids lab
    show "\<exists>pool g'. gen = Inr (pool, g') \<and> length pool = ?n
               \<and> mset (map asset pool) = mset (map fst nft_assets)
               \<and> (\<forall>nft \<in> set pool. \<exists>r \<in> fst ` set pct. rarity nft = Some r)"
      by blast
  qed
  show ?thesis unfolding gen_def [symmetric] by (intro conjI m 2 3 4)
qed

theorem generate_nft_pool_mixed_witness:
  "(''n1'', Some ''Rare'') \<in> set mixed_assets \<and> (''n2'', None) \<in> set mixed_assets
   \<and> generate_nft_pool float_pct_count stub_randbelow mixed_assets None [0] = Inl (SystemExit 1)
   \<and> generate_nft_pool float_pct_count stub_randbelow mixed_assets (Some []) [0] = Inl (SystemExit 1)
   \<and> generate_nft_pool float_pct_count stub_randbelow mixed_assets (Some half_table) [0]
       \<noteq> Inl (SystemExit 1)"
proof -
  have h1: "(''n1'', Some ''Rare'') \<in> set mixed_assets"
    and h2: "(''n2'', None) \<in> set mixed_assets"
    by (simp_all add: mixed_assets_def)
  note exits = generate_nft_pool_mixed [OF h1 h2, THEN conjunct2, THEN conjunct1]
  from exits [of float_pct_count stub_randbelow None "[0]"]
  have a: "generate_nft_pool float_pct_count stub_randbelow mixed_assets None [0] = Inl (SystemExit 1)"
    by simp
  from exits [of float_pct_count stub_randbelow "Some []" "[0]"]
  have b: "generate_nft_pool float_pct_count stub_randbelow mixed_assets (Some []) [0] = Inl (SystemExit 1)"
    by simp
  from exits [of float_pct_count stub_randbelow "Some half_table" "[0]"]
  have c: "generate_nft_pool float_pct_count stub_randbelow mixed_assets (Some half_table) [0]
       \<noteq> Inl (SystemExit 1)"
    by (simp add: half_table_def)
  from h1 h2 a b c show ?thesis by blast
qed

text \<open>
  Claim C2 as stated fails when a table is supplied: with one labelled and one unlabelled
  item and the table \<^verbatim>\<open>{Rare: 50, Common: 50}\<close> the builder returns a pool, in which the
  item that came labelled \<^verbatim>\<open>Rare\<close> carries \<^verbatim>\<open>Common\<close>.
\<close>

theorem generate_nft_pool_mixed_counterexample:
  "(''n1'', Some ''Rare'') \<in> set mixed_assets \<and> (''n2'', None) \<in> set mixed_assets
   \<and> generate_nft_pool float_pct_count stub_randbelow mixed_assets (Some half_table) [0] =
       Inr ([\<lparr>asset = ''n2'', rarity = Some ''Rare''\<rparr>, \<lparr>asset = ''n1'', rarity = Some ''Common''\<rparr>], [])
   \<and> generate_nft_pool float_pct_count stub_randbelow mixed_assets (Some half_table) [0]
       \<noteq> Inl (SystemExit 1)"
proof -
  have "(''n1'', Some ''Rare'') \<in> set mixed_assets" "(''n2'', None) \<in> set mixed_assets"
    by (simp_all add: mixed_assets_def)
  moreover have "generate_nft_pool float_pct_count stub_randbelow mixed_assets (Some half_table) [0]
       \<noteq> Inl (SystemExit 1)"
    unfolding run_mixed by simp
  ultimately show ?thesis using run_mixed by blast
qed

subsection \<open>Determinism\<close>

text \<open>
  Claim C3. Two runs that seed the random source with the same seed and then call
  \<^verbatim>\<open>generate_nft_pool\<close> once on the same item sequence and the same optional percentage
  table return the same result: the same pool, in content and order, and the same state of
  the generator, or the same exit. The runs may start from different states of the
  process-wide generator, and the table, being a dictionary, may list its entries in a
  different iteration order.
\<close>

theorem generate_nft_pool_deterministic:
  assumes "rel_option (\<lambda>d d'. mset d = mset d') rarity_percentages rarity_percentages'"
  shows "generate_nft_pool pct_count randbelow nft_assets rarity_percentages
           (NFTAllocator_init seed_rng seed g0)
         = generate_nft_pool pct_count randbelow nft_assets rarity_percentages'
             (NFTAllocator_init seed_rng seed g0')"
proof (cases rarity_percentages)
  case None
  with assms have "rarity_percentages' = None" by (cases rarity_percentages') simp_all
  with None show ?thesis by (simp add: NFTAllocator_init_def)
next
  case (Some d)
  with assms obtain d' where d': "rarity_percentages' = Some d'" "mset d = mset d'"
    by (cases rarity_percentages') simp_all
  from d'(2) have "sort d' = sort d" by (intro properties_for_sort) simp_all
  moreover from d'(2) have "d' = [] \<longleftrightarrow> d = []" by (metis mset_zero_iff)
  ultimately show ?thesis
    using Some d'(1) by (simp add: generate_nft_pool_def NFTAllocator_init_def Let_def)
qed

theorem generate_nft_pool_deterministic_witness:
  "generate_nft_pool float_pct_count stub_randbelow mixed_assets (Some [(''Common'', 50), (''Rare'', 50)])
       (NFTAllocator_init stub_seed ''test'' [7, 7, 7])
     = generate_nft_pool float_pct_count stub_randbelow mixed_assets (Some [(''Rare'', 50), (''Common'', 50)])
         (NFTAllocator_init stub_seed ''test'' [])"
proof -
  have "rel_option (\<lambda>d d'. mset d = mset d')
          (Some [(''Common'', 50 :: rat), (''Rare'', 50)]) (Some [(''Rare'', 50), (''Common'', 50)])"
    by simp
  then show ?thesis by (rule generate_nft_pool_deterministic)
qed

subsection \<open>The sizes of the rarity buckets\<close>












end
